theory Spec2Isabelle
  imports Complex_Main "HOL-Library.Sublist"
begin

section \<open>Python values and exceptions\<close>

text \<open>
  The two lambdas of the pipeline (\<^verbatim>\<open>data_extranction.py\<close> and
  \<^verbatim>\<open>data_transfromation.py\<close>) are embedded function by function. A Python exception
  is a value of \<open>exn\<close>; a call that may raise returns \<open>exn + 'a\<close> with \<open>Inl\<close> for the
  raise. Every exception named here derives from Python's \<^verbatim>\<open>Exception\<close>.
\<close>

datatype exn =
    TypeError
  | ValueError
  | KeyError
  | OSError
  | ArrowError
  | S3UploadFailedError
  | ClientError
  | JSONDecodeError

section \<open>Floating point\<close>

text \<open>
  Python's float is IEEE 754 binary64 with round to nearest, ties to even. The complexity
  score only forms non-negative values, and \<open>(m, e)\<close> stands for the number \<open>m * 2^e\<close>.
  \<open>to_double m e\<close> rounds \<open>m * 2^e\<close> to 53 significant bits. The exponent is not bounded:
  overflow needs a list of more than \<open>2^1023\<close> elements, and no value between 0 and 0.4 is
  formed, so no subnormal either.
\<close>

type_synonym dbl = "nat \<times> int"

definition dbl_val :: "dbl \<Rightarrow> rat" where
  "dbl_val d = of_nat (fst d) * 2 powi (snd d)"

fun bit_length :: "nat \<Rightarrow> nat" where
  "bit_length n = (if n = 0 then 0 else Suc (bit_length (n div 2)))"

declare bit_length.simps [simp del]

definition round_half_even :: "nat \<Rightarrow> nat \<Rightarrow> nat" where
  "round_half_even m s =
     (let q = m div 2 ^ s; r = m mod 2 ^ s
      in if 2 * r < 2 ^ s then q
         else if 2 ^ s < 2 * r then q + 1
         else if even q then q else q + 1)"

definition to_double :: "nat \<Rightarrow> int \<Rightarrow> dbl" where
  "to_double m e = (let s = bit_length m - 53 in (round_half_even m s, e + int s))"

definition float_of_nat :: "nat \<Rightarrow> dbl" where
  "float_of_nat n = to_double n 0"

definition fmul :: "dbl \<Rightarrow> dbl \<Rightarrow> dbl" where
  "fmul x y = to_double (fst x * fst y) (snd x + snd y)"

definition fadd :: "dbl \<Rightarrow> dbl \<Rightarrow> dbl" where
  "fadd x y =
     (let e = min (snd x) (snd y)
      in to_double (fst x * 2 ^ nat (snd x - e) + fst y * 2 ^ nat (snd y - e)) e)"

text \<open>The literals \<^verbatim>\<open>0.6\<close> and \<^verbatim>\<open>0.4\<close>: the doubles nearest to 6/10 and 4/10.\<close>

definition lit_0_6 :: dbl where
  "lit_0_6 = (5404319552844595, - 53)"

definition lit_0_4 :: dbl where
  "lit_0_4 = (3602879701896397, - 53)"

section \<open>Python objects\<close>

text \<open>
  A Python str is the list of its code points, of any size. The names that the code
  itself writes (field names, bucket names, storage keys, the difficulty flags) are
  \<open>string\<close>s; \<open>ascii\<close> reads such a name as a str.
\<close>

type_synonym ustr = "nat list"

definition ascii :: "string \<Rightarrow> ustr" where
  "ascii s = map of_char s"

text \<open>
  What \<^verbatim>\<open>json.load\<close> returns and what a data frame cell holds: \<^verbatim>\<open>None\<close> (or NaN, a
  missing cell), a bool, an int, a float, a str, a list (or array) or a dict. A dict is
  given by its items, one per key. The numbers of the input are never computed with, only
  type-checked; \<open>JFloat\<close> holds the scores the pipeline computes.
\<close>

datatype json =
    JNull
  | JBool bool
  | JNum int
  | JFloat dbl
  | JStr ustr
  | JArr "json list"
  | JObj "(string \<times> json) list"

section \<open>Extraction stage: Validator\<close>

text \<open>
  \<^verbatim>\<open>field in recipe\<close>: key membership for a dict, element membership for a list,
  substring for a str, and a TypeError for a value that is not a container.
\<close>

fun is_substring :: "'a list \<Rightarrow> 'a list \<Rightarrow> bool" where
  "is_substring p [] = (p = [])"
| "is_substring p (c # cs) = (prefix p (c # cs) \<or> is_substring p cs)"

fun py_in :: "string \<Rightarrow> json \<Rightarrow> exn + bool" where
  "py_in k (JObj kvs) = Inr (k \<in> set (map fst kvs))"
| "py_in k (JArr xs) = Inr (JStr (ascii k) \<in> set xs)"
| "py_in k (JStr s) = Inr (is_substring (ascii k) s)"
| "py_in k JNull = Inl TypeError"
| "py_in k (JBool b) = Inl TypeError"
| "py_in k (JNum n) = Inl TypeError"
| "py_in k (JFloat x) = Inl TypeError"

text \<open>\<^verbatim>\<open>all(...)\<close> over a generator: stops at the first false element or the first raise.\<close>

fun py_all :: "(exn + bool) list \<Rightarrow> exn + bool" where
  "py_all [] = Inr True"
| "py_all (Inl e # rest) = Inl e"
| "py_all (Inr b # rest) = (if b then py_all rest else Inr False)"

definition required_fields :: "string list" where
  "required_fields = [''title'', ''ingredients'', ''directions'']"

definition validate_raw_data :: "json \<Rightarrow> exn + bool" where
  "validate_raw_data recipe = py_all (map (\<lambda>field. py_in field recipe) required_fields)"

section \<open>Extraction stage: configuration and Batcher\<close>

text \<open>
  \<^verbatim>\<open>os.environ.get(name, default)\<close> returns the variable's value, a str, when the variable
  is set, and the default as it is written otherwise: the int 100 or 10, or a str for the
  bucket and queue names.
\<close>

datatype pyval = PInt int | PStr string

type_synonym environ = "string \<rightharpoonup> string"

definition environ_get :: "environ \<Rightarrow> string \<Rightarrow> pyval \<Rightarrow> pyval" where
  "environ_get environ name dflt = (case environ name of None \<Rightarrow> dflt | Some v \<Rightarrow> PStr v)"

definition environ_get_str :: "environ \<Rightarrow> string \<Rightarrow> string \<Rightarrow> string" where
  "environ_get_str environ name dflt = (case environ name of None \<Rightarrow> dflt | Some v \<Rightarrow> v)"

definition TEMP_BUCKET :: "environ \<Rightarrow> string" where
  "TEMP_BUCKET environ = environ_get_str environ ''TEMP_BUCKET'' ''temp-recipes-bucket''"

definition FAILED_BUCKET :: "environ \<Rightarrow> string" where
  "FAILED_BUCKET environ = environ_get_str environ ''FAILED_BUCKET'' ''failed-recipes-bucket''"

definition QUEUE_URL :: "environ \<Rightarrow> string" where
  "QUEUE_URL environ =
     environ_get_str environ ''PROCESSING_QUEUE_URL'' ''recipe-processing-queue''"

definition BATCH_SIZE :: "environ \<Rightarrow> pyval" where
  "BATCH_SIZE environ = environ_get environ ''BATCH_SIZE'' (PInt 100)"

definition MAX_WORKERS :: "environ \<Rightarrow> pyval" where
  "MAX_WORKERS environ = environ_get environ ''MAX_WORKERS'' (PInt 10)"

text \<open>
  \<^verbatim>\<open>range(start, stop, step)\<close> for a non-zero int step, as the list of its elements.
  The caller raises for a step that is zero or not an int.
\<close>

function py_range :: "int \<Rightarrow> int \<Rightarrow> int \<Rightarrow> int list" where
  "py_range i stop step =
     (if 0 < step \<and> i < stop then i # py_range (i + step) stop step
      else if step < 0 \<and> stop < i then i # py_range (i + step) stop step
      else [])"
  by pat_completeness auto
termination
  by (relation "measure (\<lambda>(i, stop, step). nat (if 0 < step then stop - i else i - stop))") auto

declare py_range.simps [simp del]

text \<open>
  \<^verbatim>\<open>xs[lo:hi]\<close> for int bounds: a negative bound counts from the end, and both are
  clamped to the list.
\<close>

definition slice_index :: "nat \<Rightarrow> int \<Rightarrow> nat" where
  "slice_index n i = (if i < 0 then nat (int n + i) else min n (nat i))"

definition py_slice :: "'a list \<Rightarrow> int \<Rightarrow> int \<Rightarrow> 'a list" where
  "py_slice xs lo hi =
     (let l = slice_index (length xs) lo; h = slice_index (length xs) hi
      in take (h - l) (drop l xs))"

text \<open>
  The list comprehension of \<^verbatim>\<open>lambda_handler\<close>:
  \<^verbatim>\<open>[recipes[i : i + BATCH_SIZE] for i in range(0, len(recipes), BATCH_SIZE)]\<close>.
  The range is built first: a str step raises TypeError, a zero step ValueError.
\<close>

definition make_batches :: "pyval \<Rightarrow> 'a list \<Rightarrow> exn + 'a list list" where
  "make_batches batch_size recipes =
     (case batch_size of
        PStr s \<Rightarrow> Inl TypeError
      | PInt b \<Rightarrow>
          if b = 0 then Inl ValueError
          else Inr (map (\<lambda>i. py_slice recipes i (i + b))
                        (py_range 0 (int (length recipes)) b)))"

section \<open>Extraction stage: the outside world\<close>

text \<open>
  The code talks to the local file system, to S3 and to SQS, and draws storage keys from
  the clock and \<^verbatim>\<open>uuid4\<close>. How the outside answers is a parameter, the record \<open>aws\<close>:
  the key that the n-th call of \<^verbatim>\<open>create_s3_bucket_key\<close> returns, and which calls raise.
  What the code has done so far is the record \<open>world\<close>, passed through every call and
  returned also when the call raises.
\<close>

record aws =
  new_key :: "nat \<Rightarrow> string"
  makedirs_raises :: "string \<Rightarrow> bool"
  to_parquet_raises :: "json list \<Rightarrow> bool"
  to_parquet_leaves_file :: "json list \<Rightarrow> bool"
  upload_raises :: "string \<Rightarrow> string \<Rightarrow> bool"
  send_message_result :: "string \<Rightarrow> exn + int"
  get_object_result :: "string \<Rightarrow> string \<Rightarrow> exn + json list"

datatype log_entry =
    LogCreatingTempFile string string
  | LogFailedRecipesSaved string
  | LogQueueError string int
  | LogExtractError exn
  | LogSummary nat nat nat

record world =
  keys_drawn :: nat
  local_files :: "string set"
  s3_objects :: "(string \<times> string \<times> json list) list"
  queue :: "(string \<times> string \<times> string) list"
  log :: "log_entry list"

definition say :: "log_entry \<Rightarrow> world \<Rightarrow> world" where
  "say entry w = w\<lparr>log := log w @ [entry]\<rparr>"

section \<open>Extraction stage: Artifact Writer and Work Notifier\<close>

text \<open>
  \<^verbatim>\<open>create_temp_file\<close>: draw a key, print, make the directory, build the data frame and
  write it to the local path \<open>temp_key\<close>, upload that file, remove it, return the key.
  \<open>makedirs_raises\<close> is asked about the key whose directory is made; \<open>to_parquet_raises\<close>
  stands for both \<^verbatim>\<open>pd.DataFrame(recipes)\<close> and \<^verbatim>\<open>df.to_parquet(temp_key)\<close>, and
  \<open>to_parquet_leaves_file\<close> says whether the raise came after the local file was
  created, which then stays. There is no \<^verbatim>\<open>try\<close> in the function: a raise leaves it at
  once, with the steps after it not run.
\<close>

definition create_temp_file :: "aws \<Rightarrow> json list \<Rightarrow> string \<Rightarrow> world \<Rightarrow> (exn + string) \<times> world" where
  "create_temp_file a recipes bucket_name w =
     (let temp_key = new_key a (keys_drawn w);
          w1 = say (LogCreatingTempFile bucket_name temp_key) (w\<lparr>keys_drawn := Suc (keys_drawn w)\<rparr>)
      in if makedirs_raises a temp_key then (Inl OSError, w1)
         else if to_parquet_raises a recipes then
           (Inl ArrowError,
            if to_parquet_leaves_file a recipes
            then w1\<lparr>local_files := insert temp_key (local_files w1)\<rparr> else w1)
         else
           let w2 = w1\<lparr>local_files := insert temp_key (local_files w1)\<rparr>
           in if upload_raises a bucket_name temp_key then (Inl S3UploadFailedError, w2)
              else
                let w3 = w2\<lparr>s3_objects := s3_objects w2 @ [(bucket_name, temp_key, recipes)]\<rparr>;
                    w4 = w3\<lparr>local_files := local_files w3 - {temp_key}\<rparr>
                in (Inr temp_key, w4))"

text \<open>
  \<^verbatim>\<open>send_message_to_queue\<close>: one \<^verbatim>\<open>sqs.send_message\<close>, which raises or returns a response;
  the response is modelled by its \<^verbatim>\<open>HTTPStatusCode\<close>. The message is
  (queue, source bucket, source key); its timestamp is left out.
\<close>

definition send_message_to_queue :: "environ \<Rightarrow> aws \<Rightarrow> string \<Rightarrow> world \<Rightarrow> (exn + int) \<times> world" where
  "send_message_to_queue environ a temp_key w =
     (case send_message_result a temp_key of
        Inl e \<Rightarrow> (Inl e, w)
      | Inr status \<Rightarrow>
          (Inr status, w\<lparr>queue := queue w @ [(QUEUE_URL environ, TEMP_BUCKET environ, temp_key)]\<rparr>))"

section \<open>Extraction stage: Extraction Coordinator\<close>

text \<open>The \<^verbatim>\<open>for recipe in recipes\<close> loop of \<^verbatim>\<open>extract_recipe_data\<close>.\<close>

fun split_recipes :: "json list \<Rightarrow> json list \<Rightarrow> json list \<Rightarrow> exn + json list \<times> json list" where
  "split_recipes [] valid_recipes invalid_recipes = Inr (valid_recipes, invalid_recipes)"
| "split_recipes (recipe # rest) valid_recipes invalid_recipes =
     (case validate_raw_data recipe of
        Inl e \<Rightarrow> Inl e
      | Inr ok \<Rightarrow>
          if ok then split_recipes rest (valid_recipes @ [recipe]) invalid_recipes
          else split_recipes rest valid_recipes (invalid_recipes @ [recipe]))"

text \<open>
  The quarantine step, lines 75 to 79: it runs inside the one \<^verbatim>\<open>try\<close> of
  \<^verbatim>\<open>extract_recipe_data\<close> and has no handler of its own.
\<close>

definition save_invalid :: "environ \<Rightarrow> aws \<Rightarrow> json list \<Rightarrow> world \<Rightarrow> (exn + unit) \<times> world" where
  "save_invalid environ a invalid_recipes w =
     (if invalid_recipes \<noteq> [] \<and> 0 < length invalid_recipes then
        (case create_temp_file a invalid_recipes (FAILED_BUCKET environ) w of
           (Inl e, w1) \<Rightarrow> (Inl e, w1)
         | (Inr failed_key, w1) \<Rightarrow>
             (Inr (), if failed_key \<noteq> [] then say (LogFailedRecipesSaved failed_key) w1 else w1))
      else (Inr (), w))"

text \<open>The body of the \<^verbatim>\<open>try\<close>, lines 64 to 86.\<close>

definition extract_body :: "environ \<Rightarrow> aws \<Rightarrow> json list \<Rightarrow> world \<Rightarrow> (exn + string) \<times> world" where
  "extract_body environ a recipes w =
     (case split_recipes recipes [] [] of
        Inl e \<Rightarrow> (Inl e, w)
      | Inr (valid_recipes, invalid_recipes) \<Rightarrow>
          (case create_temp_file a valid_recipes (TEMP_BUCKET environ) w of
             (Inl e, w1) \<Rightarrow> (Inl e, w1)
           | (Inr temp_key, w1) \<Rightarrow>
               (case save_invalid environ a invalid_recipes w1 of
                  (Inl e, w2) \<Rightarrow> (Inl e, w2)
                | (Inr u, w2) \<Rightarrow>
                    (case send_message_to_queue environ a temp_key w2 of
                       (Inl e, w3) \<Rightarrow> (Inl e, w3)
                     | (Inr status, w3) \<Rightarrow>
                         (Inr temp_key,
                          if status \<noteq> 200 then say (LogQueueError temp_key status) w3 else w3)))))"

text \<open>
  \<^verbatim>\<open>extract_recipe_data\<close>: the \<^verbatim>\<open>try\<close> with its \<^verbatim>\<open>except Exception\<close>, which prints and
  returns \<^verbatim>\<open>None\<close>. The result type leaves room for a raise, as for any call.
\<close>

definition extract_recipe_data :: "environ \<Rightarrow> aws \<Rightarrow> json list \<Rightarrow> world \<Rightarrow> (exn + string option) \<times> world" where
  "extract_recipe_data environ a recipes w =
     (case extract_body environ a recipes w of
        (Inl e, w1) \<Rightarrow> (Inr None, say (LogExtractError e) w1)
      | (Inr temp_key, w1) \<Rightarrow> (Inr (Some temp_key), w1))"

text \<open>
  \<^verbatim>\<open>threaded_extraction\<close>. The pool's constructor compares \<^verbatim>\<open>max_workers <= 0\<close>: a str
  raises TypeError, an int that is not positive ValueError. \<^verbatim>\<open>executor.map\<close> submits every
  batch, the \<^verbatim>\<open>with\<close> block waits for all of them, and \<^verbatim>\<open>list\<close> returns the results in
  the order of the batches or raises the first raise among them. The batches are run here
  one after the other in that order: the interleaving of the workers is not modelled.
\<close>

fun run_batches :: "environ \<Rightarrow> aws \<Rightarrow> json list list \<Rightarrow> world \<Rightarrow> (exn + string option) list \<times> world" where
  "run_batches environ a [] w = ([], w)"
| "run_batches environ a (batch # rest) w =
     (case extract_recipe_data environ a batch w of
        (r, w1) \<Rightarrow> (case run_batches environ a rest w1 of (rs, w2) \<Rightarrow> (r # rs, w2)))"

fun collect_results :: "(exn + 'a) list \<Rightarrow> exn + 'a list" where
  "collect_results [] = Inr []"
| "collect_results (Inl e # rest) = Inl e"
| "collect_results (Inr x # rest) =
     (case collect_results rest of Inl e \<Rightarrow> Inl e | Inr xs \<Rightarrow> Inr (x # xs))"

definition threaded_extraction :: "environ \<Rightarrow> aws \<Rightarrow> json list list \<Rightarrow> world \<Rightarrow> (exn + string option list) \<times> world" where
  "threaded_extraction environ a batches w =
     (case MAX_WORKERS environ of
        PStr s \<Rightarrow> (Inl TypeError, w)
      | PInt n \<Rightarrow>
          if n \<le> 0 then (Inl ValueError, w)
          else (case run_batches environ a batches w of (rs, w1) \<Rightarrow> (collect_results rs, w1)))"

text \<open>
  \<^verbatim>\<open>lambda_handler\<close> of the extraction lambda. An event record is (bucket, key);
  \<open>get_object_result\<close> stands for \<^verbatim>\<open>s3.get_object\<close> and \<^verbatim>\<open>json.load\<close> together and gives
  the parsed list of recipes. The summary line is printed only when there is a result.
\<close>

definition none_results :: "string option list \<Rightarrow> string option list" where
  "none_results results = filter (\<lambda>result. result = None) results"

fun handle_records :: "environ \<Rightarrow> aws \<Rightarrow> (string \<times> string) list \<Rightarrow> world \<Rightarrow> (exn + unit) \<times> world" where
  "handle_records environ a [] w = (Inr (), w)"
| "handle_records environ a ((bucket, key) # rest) w =
     (case get_object_result a bucket key of
        Inl e \<Rightarrow> (Inl e, w)
      | Inr recipes \<Rightarrow>
          (case make_batches (BATCH_SIZE environ) recipes of
             Inl e \<Rightarrow> (Inl e, w)
           | Inr batches \<Rightarrow>
               (case threaded_extraction environ a batches w of
                  (Inl e, w1) \<Rightarrow> (Inl e, w1)
                | (Inr results, w1) \<Rightarrow>
                    handle_records environ a rest
                      (if results \<noteq> [] then
                         say (LogSummary (length recipes) (length results)
                                (length (none_results results))) w1
                       else w1))))"

definition extraction_lambda_handler :: "environ \<Rightarrow> aws \<Rightarrow> (string \<times> string) list \<Rightarrow> world \<Rightarrow> (exn + int) \<times> world" where
  "extraction_lambda_handler environ a event w =
     (case handle_records environ a event w of
        (Inl e, w1) \<Rightarrow> (Inl e, w1)
      | (Inr u, w1) \<Rightarrow> (Inr 200, w1))"

section \<open>Transformation stage: Feature Transformer\<close>

text \<open>\<^verbatim>\<open>len(x)\<close> and \<^verbatim>\<open>for y in x\<close>; iterating a str gives its characters, a dict its keys.\<close>

fun py_len :: "json \<Rightarrow> exn + nat" where
  "py_len (JArr xs) = Inr (length xs)"
| "py_len (JStr s) = Inr (length s)"
| "py_len (JObj kvs) = Inr (length kvs)"
| "py_len JNull = Inl TypeError"
| "py_len (JBool b) = Inl TypeError"
| "py_len (JNum n) = Inl TypeError"
| "py_len (JFloat x) = Inl TypeError"

fun py_iter :: "json \<Rightarrow> exn + json list" where
  "py_iter (JArr xs) = Inr xs"
| "py_iter (JStr s) = Inr (map (\<lambda>c. JStr [c]) s)"
| "py_iter (JObj kvs) = Inr (map (\<lambda>kv. JStr (ascii (fst kv))) kvs)"
| "py_iter JNull = Inl TypeError"
| "py_iter (JBool b) = Inl TypeError"
| "py_iter (JNum n) = Inl TypeError"
| "py_iter (JFloat x) = Inl TypeError"

text \<open>
  \<^verbatim>\<open>(len(directions) * 0.6) + (len(ingredients) * 0.4)\<close>: the left product is evaluated
  first, each \<^verbatim>\<open>len\<close> is converted to a float, and each operation rounds.
\<close>

definition get_complexity_score :: "json \<Rightarrow> json \<Rightarrow> exn + dbl" where
  "get_complexity_score ingredients directions =
     (case py_len directions of
        Inl e \<Rightarrow> Inl e
      | Inr nd \<Rightarrow>
          (case py_len ingredients of
             Inl e \<Rightarrow> Inl e
           | Inr ni \<Rightarrow>
               Inr (fadd (fmul (float_of_nat nd) lit_0_6) (fmul (float_of_nat ni) lit_0_4))))"

text \<open>A float compared with an int literal: Python compares the exact values.\<close>

definition get_difficulty_flag :: "dbl \<Rightarrow> string" where
  "get_difficulty_flag complexity_score =
     (if dbl_val complexity_score < 4 then ''easy''
      else if dbl_val complexity_score < 8 then ''medium''
      else ''hard'')"

definition TIME_UNITS :: "(ustr \<times> int) list" where
  "TIME_UNITS =
     [(ascii ''hours'', 3600), (ascii ''hour'', 3600), (ascii ''minutes'', 60),
      (ascii ''minute'', 60), (ascii ''seconds'', 1), (ascii ''second'', 1)]"

text \<open>
  What the interpreter brings to \<^verbatim>\<open>re\<close> and \<^verbatim>\<open>int\<close>. \<open>int_max_str_digits\<close> is
  \<^verbatim>\<open>sys.int_max_str_digits\<close>: 4300 by default in the CPython releases that have the
  limit, 0 where it is switched off or absent. The other three fields are the Unicode
  tables of the interpreter for the code points from U+0100 on: the value of a decimal
  digit (category Nd), \<^verbatim>\<open>str.isspace\<close> and \<^verbatim>\<open>str.isalnum\<close>. Below U+0100 the classes
  are written out.
\<close>

record interp =
  int_max_str_digits :: nat
  decimal_value :: "nat \<Rightarrow> nat option"
  isspace_above :: "nat \<Rightarrow> bool"
  isalnum_above :: "nat \<Rightarrow> bool"

text \<open>
  The character classes of \<^verbatim>\<open>re\<close> for a str pattern: \<^verbatim>\<open>\d\<close> is a decimal digit, \<^verbatim>\<open>\s\<close>
  is \<^verbatim>\<open>str.isspace\<close>, and \<^verbatim>\<open>\w\<close> is \<^verbatim>\<open>str.isalnum\<close> or the underscore; a decimal
  digit is alphanumeric.
\<close>

definition is_digit :: "interp \<Rightarrow> nat \<Rightarrow> bool" where
  "is_digit u n = (if n < 256 then 48 \<le> n \<and> n \<le> 57 else decimal_value u n \<noteq> None)"

definition is_space :: "interp \<Rightarrow> nat \<Rightarrow> bool" where
  "is_space u n =
     (if n < 256 then (9 \<le> n \<and> n \<le> 13) \<or> (28 \<le> n \<and> n \<le> 32) \<or> n = 133 \<or> n = 160
      else isspace_above u n)"

definition is_word :: "interp \<Rightarrow> nat \<Rightarrow> bool" where
  "is_word u n =
     (if n < 256 then
        (48 \<le> n \<and> n \<le> 57) \<or> (65 \<le> n \<and> n \<le> 90) \<or> n = 95 \<or> (97 \<le> n \<and> n \<le> 122)
        \<or> n = 170 \<or> n = 178 \<or> n = 179 \<or> n = 181 \<or> n = 185 \<or> n = 186
        \<or> (188 \<le> n \<and> n \<le> 190) \<or> (192 \<le> n \<and> n \<le> 214) \<or> (216 \<le> n \<and> n \<le> 246)
        \<or> 248 \<le> n
      else isalnum_above u n \<or> decimal_value u n \<noteq> None)"

text \<open>
  The pattern \<^verbatim>\<open>(\d+)\s*(\w+)\<close> matched at the start of a string, by backtracking as
  \<^verbatim>\<open>re\<close> does: \<^verbatim>\<open>\d+\<close> takes the longest run of digits first and gives digits back one
  at a time, \<^verbatim>\<open>\s*\<close> likewise, and \<^verbatim>\<open>\w+\<close> takes the longest run of word characters,
  at least one. The first success is the match: (number, unit, rest of the string).
\<close>

fun first_some :: "'a option list \<Rightarrow> 'a option" where
  "first_some [] = None"
| "first_some (None # rest) = first_some rest"
| "first_some (Some x # rest) = Some x"

definition word_here :: "interp \<Rightarrow> ustr \<Rightarrow> (ustr \<times> ustr) option" where
  "word_here u s =
     (let w = takeWhile (is_word u) s in if w = [] then None else Some (w, drop (length w) s))"

definition spaces_word_here :: "interp \<Rightarrow> ustr \<Rightarrow> (ustr \<times> ustr) option" where
  "spaces_word_here u s =
     first_some (map (\<lambda>j. word_here u (drop j s))
                     (rev [0..<Suc (length (takeWhile (is_space u) s))]))"

definition match_here :: "interp \<Rightarrow> ustr \<Rightarrow> (ustr \<times> ustr \<times> ustr) option" where
  "match_here u s =
     first_some
       (map (\<lambda>k. case spaces_word_here u (drop k s) of
                   None \<Rightarrow> None
                 | Some (w, rest) \<Rightarrow> Some (take k s, w, rest))
            (rev [1..<Suc (length (takeWhile (is_digit u) s))]))"

lemma first_some_SomeD: "first_some xs = Some y \<Longrightarrow> Some y \<in> set xs"
  by (induction xs rule: first_some.induct) auto

lemma word_here_shorter:
  assumes "word_here u s = Some (w, r)"
  shows "length r < length s"
proof -
  from assms have w: "takeWhile (is_word u) s \<noteq> []"
    and r: "r = drop (length (takeWhile (is_word u) s)) s"
    by (auto simp: word_here_def Let_def split: if_splits)
  from w have "length (takeWhile (is_word u) s) \<noteq> 0" by simp
  moreover have "length (takeWhile (is_word u) s) \<le> length s" by (rule length_takeWhile_le)
  ultimately show ?thesis unfolding r length_drop by arith
qed

lemma spaces_word_here_shorter:
  assumes "spaces_word_here u s = Some (w, r)"
  shows "length r < length s"
proof -
  from first_some_SomeD[OF assms[unfolded spaces_word_here_def]]
  obtain j where "word_here u (drop j s) = Some (w, r)" by auto
  from word_here_shorter[OF this] show ?thesis by simp
qed

lemma match_here_shorter:
  assumes "match_here u s = Some (d, w, r)"
  shows "length r < length s"
proof -
  from first_some_SomeD[OF assms[unfolded match_here_def]]
  obtain k where "spaces_word_here u (drop k s) = Some (w, r)"
    by (auto split: option.splits)
  from spaces_word_here_shorter[OF this] show ?thesis by simp
qed

text \<open>
  \<^verbatim>\<open>time_pattern.findall(direction)\<close>: the matches from left to right, none overlapping.
  The search tries every start position in turn and goes on after the end of a match.
\<close>

function findall :: "interp \<Rightarrow> ustr \<Rightarrow> (ustr \<times> ustr) list" where
  "findall u s =
     (if s = [] then []
      else case match_here u s of
             Some (number, unit, rest) \<Rightarrow> (number, unit) # findall u rest
           | None \<Rightarrow> findall u (tl s))"
  by pat_completeness auto
termination
  by (relation "measure (\<lambda>(u, s). length s)") (auto dest: match_here_shorter)

declare findall.simps [simp del]

text \<open>
  \<^verbatim>\<open>int(number)\<close> for a run of decimal digits. \<open>number_value\<close> is the integer the digits
  denote in base ten. CPython raises ValueError instead when the limit is on and the
  string has more digits than the limit allows; it only looks at the limit for more
  than 640 digits, the least limit that can be set.
\<close>

definition digit_value :: "interp \<Rightarrow> nat \<Rightarrow> nat" where
  "digit_value u n =
     (if n < 256 then n - 48 else (case decimal_value u n of None \<Rightarrow> 0 | Some v \<Rightarrow> v))"

definition number_value :: "interp \<Rightarrow> ustr \<Rightarrow> int" where
  "number_value u number = int (foldl (\<lambda>acc c. 10 * acc + digit_value u c) 0 number)"

definition too_many_digits :: "interp \<Rightarrow> ustr \<Rightarrow> bool" where
  "too_many_digits u number =
     (640 < length number \<and> 0 < int_max_str_digits u \<and> int_max_str_digits u < length number)"

definition py_int :: "interp \<Rightarrow> ustr \<Rightarrow> exn + int" where
  "py_int u number =
     (if too_many_digits u number then Inl ValueError else Inr (number_value u number))"

text \<open>
  The inner loop of \<^verbatim>\<open>get_time_estimate\<close>, over the matches of one direction; \<^verbatim>\<open>int\<close> is
  called only after the unit was found in \<^verbatim>\<open>TIME_UNITS\<close>.
\<close>

fun match_loop :: "interp \<Rightarrow> (ustr \<times> ustr) list \<Rightarrow> int \<times> bool \<Rightarrow> exn + int \<times> bool" where
  "match_loop u [] st = Inr st"
| "match_loop u ((number, unit) # rest) (time_estimate, any_match) =
     (case map_of TIME_UNITS unit of
        None \<Rightarrow> match_loop u rest (time_estimate, any_match)
      | Some secs \<Rightarrow>
          (case py_int u number of
             Inl e \<Rightarrow> Inl e
           | Inr n \<Rightarrow> match_loop u rest (time_estimate + n * secs, True)))"

text \<open>The outer loop; \<^verbatim>\<open>findall\<close> raises TypeError for a direction that is not a str.\<close>

fun direction_loop :: "interp \<Rightarrow> json list \<Rightarrow> int \<Rightarrow> exn + int" where
  "direction_loop u [] time_estimate = Inr time_estimate"
| "direction_loop u (JStr direction # rest) time_estimate =
     (case match_loop u (findall u direction) (time_estimate, False) of
        Inl e \<Rightarrow> Inl e
      | Inr (t, any_match) \<Rightarrow> direction_loop u rest (if \<not> any_match then t + 300 else t))"
| "direction_loop u (other # rest) time_estimate = Inl TypeError"

definition get_time_estimate :: "interp \<Rightarrow> json \<Rightarrow> exn + int" where
  "get_time_estimate u directions =
     (case py_iter directions of
        Inl e \<Rightarrow> Inl e
      | Inr ds \<Rightarrow> direction_loop u ds 0)"

text \<open>
  The time estimate as the specification words it, to be compared with the code above.
  An occurrence of integer, optional whitespace, word at the start of a string splits
  the string into digits, spaces, word characters and a rest; among the occurrences the
  pattern takes the one with the most digits, then the most spaces, then the longest
  word. The mentions of a direction are the occurrences found whose word is a known
  unit, each worth its number times the unit's seconds, and a direction with no mention
  is worth 300 seconds.
\<close>

definition occurrence :: "interp \<Rightarrow> ustr \<Rightarrow> ustr \<times> ustr \<times> ustr \<times> ustr \<Rightarrow> bool" where
  "occurrence u s x =
     (case x of
        (d, sp, w, r) \<Rightarrow>
          s = d @ sp @ w @ r \<and> d \<noteq> [] \<and> list_all (is_digit u) d \<and> list_all (is_space u) sp
          \<and> w \<noteq> [] \<and> list_all (is_word u) w)"

definition not_longer :: "ustr \<times> ustr \<times> ustr \<times> ustr \<Rightarrow> ustr \<times> ustr \<times> ustr \<times> ustr \<Rightarrow> bool" where
  "not_longer x y =
     (case (x, y) of
        ((d', sp', w', r'), (d, sp, w, r)) \<Rightarrow>
          length d' < length d
          \<or> (length d' = length d
              \<and> (length sp' < length sp \<or> (length sp' = length sp \<and> length w' \<le> length w))))"

text \<open>
  The scan of a string: from left to right, an occurrence at the current position is
  taken in its longest form and the scan goes on after it; where there is none the scan
  moves on by one character.
\<close>

inductive scan :: "interp \<Rightarrow> ustr \<Rightarrow> (ustr \<times> ustr) list \<Rightarrow> bool" for u where
  scan_end: "scan u [] []"
| scan_occurrence:
    "occurrence u s (d, sp, w, r) \<Longrightarrow> (\<forall>x. occurrence u s x \<longrightarrow> not_longer x (d, sp, w, r))
       \<Longrightarrow> scan u r ms \<Longrightarrow> scan u s ((d, w) # ms)"
| scan_skip:
    "(\<forall>x. \<not> occurrence u (c # cs) x) \<Longrightarrow> scan u cs ms \<Longrightarrow> scan u (c # cs) ms"

definition unit_seconds :: "ustr \<Rightarrow> int option" where
  "unit_seconds w =
     (if w = ascii ''hour'' \<or> w = ascii ''hours'' then Some 3600
      else if w = ascii ''minute'' \<or> w = ascii ''minutes'' then Some 60
      else if w = ascii ''second'' \<or> w = ascii ''seconds'' then Some 1
      else None)"

definition mentions_of :: "interp \<Rightarrow> (ustr \<times> ustr) list \<Rightarrow> int list" where
  "mentions_of u ms =
     concat (map (\<lambda>(number, w). case unit_seconds w of
                                    None \<Rightarrow> []
                                  | Some secs \<Rightarrow> [number_value u number * secs]) ms)"

definition time_mentions :: "interp \<Rightarrow> ustr \<Rightarrow> int list" where
  "time_mentions u direction = mentions_of u (findall u direction)"

definition direction_seconds :: "interp \<Rightarrow> ustr \<Rightarrow> int" where
  "direction_seconds u direction =
     (if time_mentions u direction = [] then 300 else sum_list (time_mentions u direction))"

text \<open>
  A direction is convertible when \<^verbatim>\<open>int\<close> accepts the number of every mention: none has
  more digits than the interpreter's limit.
\<close>

definition convertible_matches :: "interp \<Rightarrow> (ustr \<times> ustr) list \<Rightarrow> bool" where
  "convertible_matches u ms =
     list_all (\<lambda>(number, w). unit_seconds w = None \<or> \<not> too_many_digits u number) ms"

definition convertible :: "interp \<Rightarrow> ustr \<Rightarrow> bool" where
  "convertible u direction = convertible_matches u (findall u direction)"

section \<open>Transformation stage: rows and data frames\<close>

text \<open>
  A row handed to \<^verbatim>\<open>transform_row\<close> is a \<^verbatim>\<open>pd.Series\<close>: labels with their values, in
  order. \<^verbatim>\<open>row[k]\<close> raises KeyError for a missing label; \<^verbatim>\<open>row[k] = v\<close> replaces the
  value of a label or appends a new one.
\<close>

type_synonym series = "(string \<times> json) list"

definition series_get :: "series \<Rightarrow> string \<Rightarrow> exn + json" where
  "series_get row k = (case map_of row k of None \<Rightarrow> Inl KeyError | Some v \<Rightarrow> Inr v)"

fun series_set :: "series \<Rightarrow> string \<Rightarrow> json \<Rightarrow> series" where
  "series_set [] k v = [(k, v)]"
| "series_set ((k', v') # rest) k v =
     (if k' = k then (k, v) # rest else (k', v') # series_set rest k v)"

text \<open>
  \<^verbatim>\<open>transform_row\<close>. The arguments \<^verbatim>\<open>row["ingredients"]\<close> and \<^verbatim>\<open>row["directions"]\<close>
  are read in this order before \<^verbatim>\<open>get_complexity_score\<close> is called; the score is read
  back from the row for the flag. The recipe id is a fresh \<^verbatim>\<open>uuid4\<close>, given as a
  parameter, as is the interpreter.
\<close>

definition transform_row :: "interp \<Rightarrow> string \<Rightarrow> series \<Rightarrow> exn + series" where
  "transform_row u fresh_id row =
     (case series_get row ''ingredients'' of
        Inl e \<Rightarrow> Inl e
      | Inr ingredients \<Rightarrow>
          (case series_get row ''directions'' of
             Inl e \<Rightarrow> Inl e
           | Inr directions \<Rightarrow>
               (case get_complexity_score ingredients directions of
                  Inl e \<Rightarrow> Inl e
                | Inr score \<Rightarrow>
                    let row1 = series_set row ''complexity_score'' (JFloat score);
                        row2 = series_set row1 ''difficulty_flag''
                                 (JStr (ascii (get_difficulty_flag score)))
                    in (case series_get row2 ''directions'' of
                          Inl e \<Rightarrow> Inl e
                        | Inr directions2 \<Rightarrow>
                            (case get_time_estimate u directions2 of
                               Inl e \<Rightarrow> Inl e
                             | Inr secs \<Rightarrow>
                                 Inr (series_set (series_set row2 ''time_estimate'' (JNum secs))
                                        ''recipe_id'' (JStr (ascii fresh_id))))))))"

text \<open>
  A data frame: its column labels and its rows, each row the values under the columns.
  \<^verbatim>\<open>pd.DataFrame(recipes)\<close> for a list of dicts has the keys of the dicts as columns, in
  the order of their first appearance, and a missing cell where a dict lacks a key.
\<close>

record dataframe =
  df_columns :: "string list"
  df_rows :: "json list list"

definition row_series :: "dataframe \<Rightarrow> json list \<Rightarrow> series" where
  "row_series df vals = zip (df_columns df) vals"

definition DataFrame :: "(string \<times> json) list list \<Rightarrow> dataframe" where
  "DataFrame recipes =
     (let cols = rev (remdups (rev (concat (map (map fst) recipes))))
      in \<lparr>df_columns = cols,
          df_rows = map (\<lambda>r. map (\<lambda>c. case map_of r c of None \<Rightarrow> JNull | Some v \<Rightarrow> v) cols)
                        recipes\<rparr>)"

section \<open>Transformation stage: Transformation Coordinator\<close>

text \<open>
  The outside of the transformation lambda: the interpreter, whether \<^verbatim>\<open>s3.get_object\<close>
  raises, the frame that \<^verbatim>\<open>pd.read_parquet\<close> returns or its raise, the \<^verbatim>\<open>uuid4\<close> of the n-th draw, whether
  \<^verbatim>\<open>put_object\<close> (with \<^verbatim>\<open>df.to_parquet()\<close> as its argument) raises, and \<open>series_str\<close>,
  the text that pandas gives for \<^verbatim>\<open>str\<close> of a column, which is what an f-string puts in
  for \<^verbatim>\<open>{df['difficulty_flag']}\<close>.
\<close>

record taws =
  python :: interp
  get_object_raises :: "string \<Rightarrow> string \<Rightarrow> bool"
  read_parquet_result :: "string \<Rightarrow> string \<Rightarrow> exn + dataframe"
  new_uuid :: "nat \<Rightarrow> string"
  series_str :: "json list \<Rightarrow> string"
  put_object_raises :: "string \<Rightarrow> string \<Rightarrow> bool"

datatype tlog_entry =
    LogProcessingFile string string
  | LogTempFile string string

record tworld =
  uuids_drawn :: nat
  processed_objects :: "(string \<times> string \<times> dataframe) list"
  tlog :: "tlog_entry list"

definition PROCESSED_BUCKET :: "environ \<Rightarrow> string" where
  "PROCESSED_BUCKET environ =
     environ_get_str environ ''PROCESSED_BUCKET'' ''processed-recipes-bucket''"

text \<open>
  \<^verbatim>\<open>df.apply(transform_row, axis=1)\<close>: the rows in order, the first raise ending the call.
  For a frame with no rows pandas returns a copy of the frame, with no column added. The
  new frame has the labels of the transformed rows as columns.
\<close>

fun apply_rows :: "taws \<Rightarrow> dataframe \<Rightarrow> json list list \<Rightarrow> tworld \<Rightarrow> (exn + series list) \<times> tworld" where
  "apply_rows a df [] w = (Inr [], w)"
| "apply_rows a df (vals # rest) w =
     (case transform_row (python a) (new_uuid a (uuids_drawn w)) (row_series df vals) of
        Inl e \<Rightarrow> (Inl e, w)
      | Inr row \<Rightarrow>
          (case apply_rows a df rest (w\<lparr>uuids_drawn := Suc (uuids_drawn w)\<rparr>) of
             (Inl e, w1) \<Rightarrow> (Inl e, w1)
           | (Inr rows, w1) \<Rightarrow> (Inr (row # rows), w1)))"

definition df_apply :: "taws \<Rightarrow> dataframe \<Rightarrow> tworld \<Rightarrow> (exn + dataframe) \<times> tworld" where
  "df_apply a df w =
     (if df_rows df = [] then (Inr df, w)
      else
        (case apply_rows a df (df_rows df) w of
           (Inl e, w1) \<Rightarrow> (Inl e, w1)
         | (Inr rows, w1) \<Rightarrow>
             (Inr \<lparr>df_columns = (case rows of [] \<Rightarrow> df_columns df | r # rs \<Rightarrow> map fst r),
                   df_rows = map (map snd) rows\<rparr>, w1)))"

text \<open>\<^verbatim>\<open>df[[...]]\<close> with a list of labels: KeyError when a label is not a column.\<close>

definition cell :: "dataframe \<Rightarrow> json list \<Rightarrow> string \<Rightarrow> json" where
  "cell df vals c = (case map_of (row_series df vals) c of None \<Rightarrow> JNull | Some v \<Rightarrow> v)"

definition select_columns :: "dataframe \<Rightarrow> string list \<Rightarrow> exn + dataframe" where
  "select_columns df cols =
     (if list_all (\<lambda>c. c \<in> set (df_columns df)) cols then
        Inr \<lparr>df_columns = cols, df_rows = map (\<lambda>vals. map (cell df vals) cols) (df_rows df)\<rparr>
      else Inl KeyError)"

definition needed_columns :: "string list" where
  "needed_columns =
     [''title'', ''ingredients'', ''directions'', ''tags'', ''complexity_score'',
      ''difficulty_flag'', ''time_estimate'', ''recipe_id'']"

definition column :: "dataframe \<Rightarrow> string \<Rightarrow> json list" where
  "column df c = map (\<lambda>vals. cell df vals c) (df_rows df)"

text \<open>\<^verbatim>\<open>s.split(sep)\<close> for a one-character separator; the result is never empty.\<close>

fun py_split :: "char \<Rightarrow> string \<Rightarrow> string list" where
  "py_split sep [] = [[]]"
| "py_split sep (c # cs) =
     (if c = sep then [] # py_split sep cs
      else (case py_split sep cs of
              [] \<Rightarrow> [[c]]
            | part # parts \<Rightarrow> (c # part) # parts))"

text \<open>
  Line 114:
  \<^verbatim>\<open>output_key = f"{df['difficulty_flag']}/{temp_key.split('/')[-1]}"\<close>.
\<close>

definition output_key :: "taws \<Rightarrow> dataframe \<Rightarrow> string \<Rightarrow> string" where
  "output_key a df temp_key =
     series_str a (column df ''difficulty_flag'') @ ''/'' @ last (py_split CHR ''/'' temp_key)"

text \<open>The body of the \<^verbatim>\<open>for record in event["Records"]\<close> loop, lines 83 to 117.\<close>

definition transform_record :: "environ \<Rightarrow> taws \<Rightarrow> string \<times> string \<Rightarrow> tworld \<Rightarrow> (exn + unit) \<times> tworld" where
  "transform_record environ a record w =
     (case record of
        (temp_bucket, temp_key) \<Rightarrow>
          let w1 = w\<lparr>tlog := tlog w @ [LogProcessingFile temp_bucket temp_key]\<rparr>
          in if get_object_raises a temp_bucket temp_key then (Inl ClientError, w1)
             else
               let w2 = w1\<lparr>tlog := tlog w1 @ [LogTempFile temp_bucket temp_key]\<rparr>
               in (case read_parquet_result a temp_bucket temp_key of
                     Inl e \<Rightarrow> (Inl e, w2)
                   | Inr df \<Rightarrow>
                       (case df_apply a df w2 of
                          (Inl e, w3) \<Rightarrow> (Inl e, w3)
                        | (Inr df1, w3) \<Rightarrow>
                            (case select_columns df1 needed_columns of
                               Inl e \<Rightarrow> (Inl e, w3)
                             | Inr df2 \<Rightarrow>
                                 let key = output_key a df2 temp_key
                                 in if put_object_raises a (PROCESSED_BUCKET environ) key
                                    then (Inl ClientError, w3)
                                    else (Inr (),
                                          w3\<lparr>processed_objects := processed_objects w3
                                               @ [(PROCESSED_BUCKET environ, key, df2)]\<rparr>)))))"

fun transform_records :: "environ \<Rightarrow> taws \<Rightarrow> (string \<times> string) list \<Rightarrow> tworld \<Rightarrow> (exn + unit) \<times> tworld" where
  "transform_records environ a [] w = (Inr (), w)"
| "transform_records environ a (record # rest) w =
     (case transform_record environ a record w of
        (Inl e, w1) \<Rightarrow> (Inl e, w1)
      | (Inr u, w1) \<Rightarrow> transform_records environ a rest w1)"

definition transformation_lambda_handler :: "environ \<Rightarrow> taws \<Rightarrow> (string \<times> string) list \<Rightarrow> tworld \<Rightarrow> (exn + int) \<times> tworld" where
  "transformation_lambda_handler environ a event w =
     (case transform_records environ a event w of
        (Inl e, w1) \<Rightarrow> (Inl e, w1)
      | (Inr u, w1) \<Rightarrow> (Inr 200, w1))"

section \<open>Scenarios and auxiliary definitions\<close>

text \<open>
  Concrete inputs for the examples below: an empty world, made-up storage keys of the shape
  the code generates, one well-formed recipe, and three ways for the outside to answer.
  In \<open>quarantine_down\<close> every upload to the quarantine bucket raises; in \<open>upload_down\<close>
  every upload raises.
\<close>

definition dict_keys :: "(string \<times> json) list \<Rightarrow> string set" where
  "dict_keys kvs = fst ` set kvs"

definition empty_world :: world where
  "empty_world = \<lparr>keys_drawn = 0, local_files = {}, s3_objects = [], queue = [], log = []\<rparr>"

definition numbered_key :: "nat \<Rightarrow> string" where
  "numbered_key n = ''2025/02/17/'' @ replicate (Suc n) CHR ''a'' @ ''.parquet''"

definition pancake_items :: "(string \<times> json) list" where
  "pancake_items =
     [(''title'', JStr (ascii ''Pancakes'')),
      (''ingredients'', JArr [JStr (ascii ''flour''), JStr (ascii ''milk'')]),
      (''directions'', JArr [JStr (ascii ''Mix''), JStr (ascii ''Fry for 2 minutes'')])]"

definition pancakes :: json where
  "pancakes = JObj pancake_items"

definition tagged_pancake_items :: "(string \<times> json) list" where
  "tagged_pancake_items = pancake_items @ [(''tags'', JArr [JStr (ascii ''breakfast'')])]"

definition quarantine_down :: aws where
  "quarantine_down =
     \<lparr>new_key = numbered_key,
      makedirs_raises = (\<lambda>key. False),
      to_parquet_raises = (\<lambda>recipes. False),
      to_parquet_leaves_file = (\<lambda>recipes. False),
      upload_raises = (\<lambda>bucket key. bucket = ''failed-recipes-bucket''),
      send_message_result = (\<lambda>key. Inr 200),
      get_object_result = (\<lambda>bucket key. Inr [])\<rparr>"

definition quarantine_down_mixed :: aws where
  "quarantine_down_mixed = quarantine_down\<lparr>get_object_result := (\<lambda>bucket key. Inr [JObj [], pancakes])\<rparr>"

definition upload_down :: aws where
  "upload_down =
     \<lparr>new_key = numbered_key,
      makedirs_raises = (\<lambda>key. False),
      to_parquet_raises = (\<lambda>recipes. False),
      to_parquet_leaves_file = (\<lambda>recipes. False),
      upload_raises = (\<lambda>bucket key. True),
      send_message_result = (\<lambda>key. Inr 200),
      get_object_result = (\<lambda>bucket key. Inr [])\<rparr>"

text \<open>
  An interpreter for the examples: the default limit of 4300 digits, and of the tables
  from U+0100 on only what the examples touch, the Arabic-Indic digits U+0660 to U+0669
  and the spaces. \<open>arabic_direction\<close> is the number ten in Arabic-Indic digits, an em
  space (U+2003) and \<^verbatim>\<open>minutes\<close>.
\<close>

definition cpython_sample :: interp where
  "cpython_sample =
     \<lparr>int_max_str_digits = 4300,
      decimal_value = (\<lambda>n. if 1632 \<le> n \<and> n \<le> 1641 then Some (n - 1632) else None),
      isspace_above = (\<lambda>n. n = 5760 \<or> (8192 \<le> n \<and> n \<le> 8202) \<or> n = 8232 \<or> n = 8233
                              \<or> n = 8239 \<or> n = 8287 \<or> n = 12288),
      isalnum_above = (\<lambda>n. False)\<rparr>"

definition arabic_direction :: ustr where
  "arabic_direction = [1633, 1632, 8195] @ ascii ''minutes''"

text \<open>
  The outside of the transformation lambda in the examples: one artifact holding the frame
  of one recipe, nothing raising. \<open>pandas_str\<close> is the text pandas gives for a column of
  one str, the index 0 and the value on one line and the column's name and dtype on the
  next; its other branch, the text of an empty column, is not reached in the examples.
  \<open>test_key\<close> is the key of the source's own test event.
\<close>

definition pandas_str :: "json list \<Rightarrow> string" where
  "pandas_str col =
     (case col of
        [JStr v] \<Rightarrow> ''0    '' @ map char_of v @ [CHR 0x0A] @ ''Name: difficulty_flag, dtype: object''
      | _ \<Rightarrow> ''Series([], Name: difficulty_flag, dtype: object)'')"

definition one_artifact :: "(string \<times> json) list \<Rightarrow> taws" where
  "one_artifact items =
     \<lparr>python = cpython_sample,
      get_object_raises = (\<lambda>bucket key. False),
      read_parquet_result = (\<lambda>bucket key. Inr (DataFrame [items])),
      new_uuid = (\<lambda>n. ''uuid-'' @ replicate (Suc n) CHR ''a''),
      series_str = pandas_str,
      put_object_raises = (\<lambda>bucket key. False)\<rparr>"

text \<open>
  An artifact of two records, the first with \<^verbatim>\<open>tags\<close> and the second without; the text of
  a column of two strs of the same width has one line for each.
\<close>

definition mixed_artifact :: taws where
  "mixed_artifact =
     \<lparr>python = cpython_sample,
      get_object_raises = (\<lambda>bucket key. False),
      read_parquet_result = (\<lambda>bucket key. Inr (DataFrame [tagged_pancake_items, pancake_items])),
      new_uuid = (\<lambda>n. ''uuid-'' @ replicate (Suc n) CHR ''a''),
      series_str =
        (\<lambda>col. case col of
                 [JStr v, JStr v'] \<Rightarrow>
                   ''0    '' @ map char_of v @ [CHR 0x0A] @ ''1    '' @ map char_of v'
                     @ [CHR 0x0A] @ ''Name: difficulty_flag, dtype: object''
               | _ \<Rightarrow> pandas_str col),
      put_object_raises = (\<lambda>bucket key. False)\<rparr>"

definition empty_tworld :: tworld where
  "empty_tworld = \<lparr>uuids_drawn = 0, processed_objects = [], tlog = []\<rparr>"

definition test_key :: string where
  "test_key = ''2025/02/17/7c9e82bd-9ed4-44d0-a9a0-8215b23eb3ad.parquet''"

text \<open>The columns that \<^verbatim>\<open>transform_row\<close> adds to a row.\<close>

definition added_columns :: "string set" where
  "added_columns = {''complexity_score'', ''difficulty_flag'', ''time_estimate'', ''recipe_id''}"

text \<open>
  Half a unit in the last place, relative to the value, and \<open>near k x y\<close>: \<open>x\<close> is \<open>y\<close> after
  at most \<open>k\<close> roundings, each off by at most that share.
\<close>

definition half_ulp :: rat where
  "half_ulp = 1 / 2 ^ 53"

definition near :: "nat \<Rightarrow> rat \<Rightarrow> rat \<Rightarrow> bool" where
  "near k x y \<longleftrightarrow> y * (1 - half_ulp) ^ k \<le> x \<and> x \<le> y * (1 + half_ulp) ^ k"

text \<open>The batches from offset \<open>i\<close> on, for a positive batch size.\<close>

definition slices_from :: "'a list \<Rightarrow> nat \<Rightarrow> nat \<Rightarrow> 'a list list" where
  "slices_from xs b i =
     map (\<lambda>j. py_slice xs j (j + int b)) (py_range (int i) (int (length xs)) (int b))"

lemmas eval_extraction =
  extract_recipe_data_def extract_body_def save_invalid_def create_temp_file_def
  send_message_to_queue_def say_def Let_def validate_raw_data_def required_fields_def
  TEMP_BUCKET_def FAILED_BUCKET_def QUEUE_URL_def environ_get_str_def


section \<open>Validator\<close>

text \<open>
  Claim C4. For a record, that is a dict, \<^verbatim>\<open>validate_raw_data\<close> returns without raising,
  and returns true exactly when \<^verbatim>\<open>title\<close>, \<^verbatim>\<open>ingredients\<close> and \<^verbatim>\<open>directions\<close> are all among
  its keys. The values are not looked at: any three values under the three keys are
  accepted. The function takes no world and returns none, so it has no effect.
\<close>

theorem validator_contract:
  "validate_raw_data (JObj kvs) = Inr ({''title'', ''ingredients'', ''directions''} \<subseteq> dict_keys kvs)
   \<and> validate_raw_data (JObj [(''title'', t), (''ingredients'', i), (''directions'', d)]) = Inr True"
  by (simp add: validate_raw_data_def required_fields_def dict_keys_def)

section \<open>Batcher\<close>

lemma py_slice_nonneg:
  "py_slice xs (int i) (int i + int b) = take b (drop i xs)"
  by (auto simp: py_slice_def slice_index_def Let_def min_def nat_add_distrib take_all_iff)

lemma slices_from_unfold:
  "0 < b \<Longrightarrow> slices_from xs b i =
     (if i < length xs then take b (drop i xs) # slices_from xs b (i + b) else [])"
  by (simp add: slices_from_def py_slice_nonneg py_range.simps[of "int i"])

lemma concat_slices_from:
  "0 < b \<Longrightarrow> concat (slices_from xs b i) = drop i xs"
proof (induction "length xs - i" arbitrary: i rule: less_induct)
  case less
  show ?case
  proof (cases "i < length xs")
    case True
    then have "concat (slices_from xs b (i + b)) = drop (i + b) xs"
      using less.hyps[of "i + b"] less.prems by simp
    then show ?thesis
      using True less.prems
      by (simp add: slices_from_unfold[of b xs i] add.commute flip: drop_drop)
  next
    case False
    then show ?thesis using less.prems by (simp add: slices_from_unfold[of b xs i])
  qed
qed

lemma length_slices_from:
  "0 < b \<Longrightarrow> length (slices_from xs b i) = (length xs - i + b - 1) div b"
proof (induction "length xs - i" arbitrary: i rule: less_induct)
  case less
  show ?case
  proof (cases "i < length xs")
    case True
    have ih: "length (slices_from xs b (i + b)) = (length xs - (i + b) + b - 1) div b"
      using less.hyps[of "i + b"] True less.prems by simp
    have "b \<le> length xs - i + b - 1" using True by simp
    then have "(length xs - i + b - 1) div b = Suc ((length xs - i + b - 1 - b) div b)"
      using less.prems by (simp add: le_div_geq)
    also have "(length xs - i + b - 1 - b) div b = (length xs - (i + b) + b - 1) div b"
    proof (cases "i + b \<le> length xs")
      case True
      then show ?thesis by simp
    next
      case False
      then show ?thesis using less.prems by simp
    qed
    finally show ?thesis
      using True less.prems ih by (simp add: slices_from_unfold[of b xs i])
  next
    case False
    then show ?thesis using less.prems by (simp add: slices_from_unfold[of b xs i])
  qed
qed

lemma nth_slices_from:
  "0 < b \<Longrightarrow> k < length (slices_from xs b i) \<Longrightarrow>
     slices_from xs b i ! k = take b (drop (i + k * b) xs)"
proof (induction k arbitrary: i)
  case 0
  then show ?case
    by (cases "i < length xs") (simp_all add: slices_from_unfold[of b xs i])
next
  case (Suc k)
  from Suc.prems have lt: "i < length xs"
    by (cases "i < length xs") (simp_all add: slices_from_unfold[of b xs i])
  with Suc.prems have "k < length (slices_from xs b (i + b))"
    by (simp add: slices_from_unfold[of b xs i])
  then have "slices_from xs b (i + b) ! k = take b (drop (i + b + k * b) xs)"
    using Suc.IH[of "i + b"] Suc.prems(1) by simp
  then show ?case
    using lt Suc.prems(1) by (simp add: slices_from_unfold[of b xs i] ac_simps)
qed

lemma make_batches_slices:
  "0 < b \<Longrightarrow> make_batches (PInt (int b)) xs = Inr (slices_from xs b 0)"
  by (simp add: make_batches_def slices_from_def)

lemma ceil_div:
  assumes "0 < (b::nat)"
  shows "(n + b - 1) div b = (if n mod b = 0 then n div b else Suc (n div b))"
proof -
  have split: "n + b - 1 = (n mod b + b - 1) + n div b * b"
    using assms by (simp add: add.commute)
  have "(n + b - 1) div b = ((n mod b + b - 1) + n div b * b) div b"
    using arg_cong[OF split, of "\<lambda>x. x div b"] .
  also have "\<dots> = (n mod b + b - 1) div b + n div b"
    using assms by (subst div_mult_self1) simp_all
  finally have "(n + b - 1) div b = (n mod b + b - 1) div b + n div b" .
  moreover have "(n mod b + b - 1) div b = (if n mod b = 0 then 0 else 1)"
  proof (cases "n mod b = 0")
    case True
    then show ?thesis using assms by simp
  next
    case False
    have "n mod b < b" using assms by simp
    with False have "b \<le> n mod b + b - 1" "n mod b + b - 1 - b < b" by simp_all
    then have "(n mod b + b - 1) div b = Suc ((n mod b + b - 1 - b) div b)"
      using assms le_div_geq by blast
    with \<open>n mod b + b - 1 - b < b\<close> False show ?thesis by simp
  qed
  ultimately show ?thesis by simp
qed

lemma last_slice_length:
  assumes "0 < (b::nat)" "Suc k = (n + b - 1) div b"
  shows "min b (n - k * b) = (if n mod b = 0 then b else n mod b)"
proof (cases "n mod b = 0")
  case True
  with assms have k: "Suc k = n div b" using ceil_div[OF assms(1), of n] by simp
  have "n = Suc k * b" using True k by (metis mod_0_imp_dvd dvd_div_mult_self)
  then have "n - k * b = b" by simp
  with True show ?thesis by simp
next
  case False
  with assms have k: "k = n div b" using ceil_div[OF assms(1), of n] by simp
  have "n - k * b = n mod b" unfolding k by (simp add: minus_div_mult_eq_mod)
  moreover have "n mod b < b" using assms by simp
  ultimately show ?thesis using False by simp
qed

lemma inner_slice_length:
  assumes "0 < (b::nat)" "Suc k < (n + b - 1) div b"
  shows "min b (n - k * b) = b"
proof -
  have "(n + b - 1) div b \<le> Suc (n div b)" using ceil_div[OF assms(1), of n] by simp
  with assms(2) have "Suc k \<le> n div b" by simp
  then have "Suc k * b \<le> n div b * b" by (rule mult_le_mono1)
  also have "\<dots> \<le> n" by simp
  finally have "b \<le> n - k * b" by simp
  then show ?thesis by simp
qed

text \<open>
  Claim C2. For a list of \<open>N\<close> records and a positive batch size \<open>B\<close> the comprehension
  returns \<open>\<lceil>N/B\<rceil>\<close> batches; batch \<open>k\<close> is the slice of \<open>B\<close> records from offset \<open>k * B\<close>,
  so the order is kept and the batches concatenated give the input back; every batch
  but the last has length \<open>B\<close>, the last has length \<open>N mod B\<close>, or \<open>B\<close> when that is 0; and
  the empty input gives no batch.
\<close>

theorem batcher_contract:
  assumes "0 < B"
  shows "\<exists>bs. make_batches (PInt (int B)) xs = Inr bs
           \<and> length bs = (length xs + B - 1) div B
           \<and> concat bs = xs
           \<and> (\<forall>k < length bs. bs ! k = take B (drop (k * B) xs))
           \<and> (\<forall>k < length bs. length (bs ! k) =
                 (if Suc k < length bs then B
                  else if length xs mod B = 0 then B else length xs mod B))
           \<and> (xs = [] \<longrightarrow> bs = [])"
proof -
  let ?bs = "slices_from xs B 0"
  have len: "length ?bs = (length xs + B - 1) div B"
    using length_slices_from[OF assms, of xs 0] by simp
  have nth: "?bs ! k = take B (drop (k * B) xs)" if "k < length ?bs" for k
    using nth_slices_from[OF assms that] by simp
  have sizes: "length (?bs ! k) =
      (if Suc k < length ?bs then B else if length xs mod B = 0 then B else length xs mod B)"
    if "k < length ?bs" for k
  proof (cases "Suc k < length ?bs")
    case True
    then show ?thesis using inner_slice_length[OF assms, of k "length xs"] nth[OF that] len by simp
  next
    case False
    with that have "Suc k = (length xs + B - 1) div B" using len by simp
    then show ?thesis using last_slice_length[OF assms, of k "length xs"] nth[OF that] False by simp
  qed
  have empty: "xs = [] \<longrightarrow> ?bs = []"
    using assms by (simp add: slices_from_unfold[of B "[]" 0])
  show ?thesis
    using make_batches_slices[OF assms, of xs] len concat_slices_from[OF assms, of xs 0] nth sizes empty
    by auto
qed

theorem batcher_contract_witness:
  "make_batches (PInt 2) [1, 2, 3, 4, 5 :: nat] = Inr [[1, 2], [3, 4], [5]]
   \<and> (\<exists>bs. make_batches (PInt 100) [0..<250] = Inr bs
          \<and> length bs = 3 \<and> concat bs = [0..<250]
          \<and> length (bs ! 0) = 100 \<and> length (bs ! 1) = 100 \<and> length (bs ! 2) = 50)
   \<and> make_batches (PInt 100) ([] :: nat list) = Inr []"
proof -
  have pos: "(0::nat) < 2" "(0::nat) < 100" by simp_all
  from batcher_contract[OF pos(1), of "[1, 2, 3, 4, 5 :: nat]"]
  have a: "make_batches (PInt 2) [1, 2, 3, 4, 5 :: nat] = Inr [[1, 2], [3, 4], [5]]"
    by (simp add: make_batches_def py_slice_def slice_index_def py_range.simps[of _ 5 2])
  from batcher_contract[OF pos(2), of "[0..<250]"]
  obtain bs where bs: "make_batches (PInt 100) [0..<250] = Inr bs"
    and len: "length bs = (length [0..<250] + 100 - 1) div 100"
    and cat: "concat bs = [0..<250]"
    and sizes: "\<forall>k<length bs. length (bs ! k) =
                 (if Suc k < length bs then 100
                  else if length [0..<250] mod 100 = 0 then 100 else length [0..<250] mod 100)"
    by auto
  from len have l3: "length bs = 3" by simp
  from sizes[rule_format, of 0] sizes[rule_format, of 1] sizes[rule_format, of 2] l3
  have "length (bs ! 0) = 100" "length (bs ! 1) = 100" "length (bs ! 2) = 50" by simp_all
  with bs l3 cat have b: "\<exists>bs. make_batches (PInt 100) [0..<250] = Inr bs
          \<and> length bs = 3 \<and> concat bs = [0..<250]
          \<and> length (bs ! 0) = 100 \<and> length (bs ! 1) = 100 \<and> length (bs ! 2) = 50" by blast
  from batcher_contract[OF pos(2), of "[] :: nat list"]
  have c: "make_batches (PInt 100) ([] :: nat list) = Inr []" by auto
  from a b c show ?thesis by blast
qed

section \<open>Artifact Writer\<close>

lemma create_temp_file_queue:
  "queue (snd (create_temp_file a recipes bucket w)) = queue w"
  by (simp add: create_temp_file_def say_def Let_def)

lemma create_temp_file_success:
  assumes "create_temp_file a recipes bucket w = (Inr temp_key, w1)"
  shows "temp_key = new_key a (keys_drawn w)"
    and "s3_objects w1 = s3_objects w @ [(bucket, temp_key, recipes)]"
    and "local_files w1 = local_files w - {temp_key}"
  using assms by (auto simp: create_temp_file_def say_def Let_def split: if_splits)

lemma create_temp_file_s3_mono:
  "set (s3_objects w) \<subseteq> set (s3_objects (snd (create_temp_file a recipes bucket w)))"
  by (auto simp: create_temp_file_def say_def Let_def)

text \<open>
  Claim C6 says that the local scratch copy is gone after \<^verbatim>\<open>create_temp_file\<close> whether or
  not the upload succeeded. The code removes the file on the line after the upload, with
  no \<^verbatim>\<open>try\<close>/\<^verbatim>\<open>finally\<close>: when \<^verbatim>\<open>s3.upload_file\<close> raises, \<^verbatim>\<open>os.remove\<close> is not reached.
  Evaluated where every upload raises: the call raises and the file written under the
  generated key is still there.
\<close>

theorem scratch_copy_left_behind:
  "fst (create_temp_file upload_down [] ''temp-recipes-bucket'' empty_world) = Inl S3UploadFailedError
   \<and> local_files empty_world = {}
   \<and> local_files (snd (create_temp_file upload_down [] ''temp-recipes-bucket'' empty_world))
       = {new_key upload_down 0}"
  by (simp add: create_temp_file_def upload_down_def empty_world_def say_def Let_def)

section \<open>Extraction Coordinator\<close>

text \<open>
  Claim C5 says that a failed quarantine write is only logged, and that the batch still
  publishes its notification and returns its key. In the code the quarantine write is a
  plain call inside the one \<^verbatim>\<open>try\<close> of \<^verbatim>\<open>extract_recipe_data\<close>, so its raise is caught
  by the handler of the whole batch. Evaluated on a batch of one record without the
  required fields, where uploads to the quarantine bucket raise: the batch returns
  \<^verbatim>\<open>None\<close>, the queue stays empty, and the log ends with the caught error.
\<close>

theorem quarantine_failure_counterexample:
  "split_recipes [JObj []] [] [] = Inr ([], [JObj []])
   \<and> fst (extract_recipe_data Map.empty quarantine_down [JObj []] empty_world) = Inr None
   \<and> queue (snd (extract_recipe_data Map.empty quarantine_down [JObj []] empty_world)) = []
   \<and> log (snd (extract_recipe_data Map.empty quarantine_down [JObj []] empty_world))
       = [LogCreatingTempFile ''temp-recipes-bucket'' (numbered_key 0),
          LogCreatingTempFile ''failed-recipes-bucket'' (numbered_key 1),
          LogExtractError S3UploadFailedError]"
  by (simp add: eval_extraction quarantine_down_def empty_world_def numbered_key_def)

text \<open>
  Claim C5 as amended. When the invalid sub-list of a batch is not empty and the
  quarantine write raises after the primary artifact was written, the raise is caught by
  the batch's handler: it is logged, the batch returns \<^verbatim>\<open>None\<close>, no notification is
  sent for the batch, and the primary artifact stays in its bucket.
\<close>

theorem quarantine_failure_fails_batch:
  assumes "split_recipes recipes [] [] = Inr (valid_recipes, invalid_recipes)"
    and "invalid_recipes \<noteq> []"
    and "create_temp_file a valid_recipes (TEMP_BUCKET environ) w = (Inr temp_key, w1)"
    and "create_temp_file a invalid_recipes (FAILED_BUCKET environ) w1 = (Inl e, w2)"
  shows "extract_recipe_data environ a recipes w = (Inr None, say (LogExtractError e) w2)
         \<and> queue (say (LogExtractError e) w2) = queue w
         \<and> (TEMP_BUCKET environ, temp_key, valid_recipes) \<in> set (s3_objects (say (LogExtractError e) w2))"
proof -
  have res: "extract_recipe_data environ a recipes w = (Inr None, say (LogExtractError e) w2)"
    using assms by (simp add: extract_recipe_data_def extract_body_def save_invalid_def)
  have "queue w1 = queue w"
    using create_temp_file_queue[of a valid_recipes "TEMP_BUCKET environ" w] assms(3) by simp
  moreover have "queue w2 = queue w1"
    using create_temp_file_queue[of a invalid_recipes "FAILED_BUCKET environ" w1] assms(4) by simp
  ultimately have q: "queue (say (LogExtractError e) w2) = queue w"
    by (simp add: say_def)
  have "(TEMP_BUCKET environ, temp_key, valid_recipes) \<in> set (s3_objects w1)"
    using create_temp_file_success(2)[OF assms(3)] by simp
  moreover have "set (s3_objects w1) \<subseteq> set (s3_objects w2)"
    using create_temp_file_s3_mono[of w1 a invalid_recipes "FAILED_BUCKET environ"] assms(4) by simp
  ultimately have s: "(TEMP_BUCKET environ, temp_key, valid_recipes) \<in> set (s3_objects (say (LogExtractError e) w2))"
    by (auto simp: say_def)
  from res q s show ?thesis by simp
qed

theorem quarantine_failure_fails_batch_witness:
  "extract_recipe_data Map.empty quarantine_down [JObj []] empty_world =
     (Inr None,
      say (LogExtractError S3UploadFailedError)
        (snd (create_temp_file quarantine_down [JObj []] ''failed-recipes-bucket''
           (snd (create_temp_file quarantine_down [] ''temp-recipes-bucket'' empty_world)))))
   \<and> queue (say (LogExtractError S3UploadFailedError)
        (snd (create_temp_file quarantine_down [JObj []] ''failed-recipes-bucket''
           (snd (create_temp_file quarantine_down [] ''temp-recipes-bucket'' empty_world))))) = []
   \<and> (''temp-recipes-bucket'', numbered_key 0, []) \<in> set (s3_objects (say (LogExtractError S3UploadFailedError)
        (snd (create_temp_file quarantine_down [JObj []] ''failed-recipes-bucket''
           (snd (create_temp_file quarantine_down [] ''temp-recipes-bucket'' empty_world))))))"
proof -
  let ?w1 = "snd (create_temp_file quarantine_down [] ''temp-recipes-bucket'' empty_world)"
  let ?w2 = "snd (create_temp_file quarantine_down [JObj []] ''failed-recipes-bucket'' ?w1)"
  have h1: "split_recipes [JObj []] [] [] = Inr ([], [JObj []])"
    by (simp add: validate_raw_data_def required_fields_def)
  have h2: "[JObj []] \<noteq> []" by simp
  have h3: "create_temp_file quarantine_down [] (TEMP_BUCKET Map.empty) empty_world
              = (Inr (numbered_key 0), ?w1)"
    by (simp add: create_temp_file_def quarantine_down_def empty_world_def say_def Let_def
          TEMP_BUCKET_def environ_get_str_def)
  have h4: "create_temp_file quarantine_down [JObj []] (FAILED_BUCKET Map.empty) ?w1
              = (Inl S3UploadFailedError, ?w2)"
    by (simp add: create_temp_file_def quarantine_down_def empty_world_def say_def Let_def
          FAILED_BUCKET_def environ_get_str_def)
  have "queue empty_world = []" by (simp add: empty_world_def)
  with quarantine_failure_fails_batch[OF h1 h2 h3 h4] show ?thesis
    by (simp add: TEMP_BUCKET_def environ_get_str_def)
qed

lemma extract_recipe_data_returns:
  "\<exists>r. fst (extract_recipe_data environ a recipes w) = Inr r"
  by (simp add: extract_recipe_data_def split: prod.splits sum.splits)


lemma run_batches_Cons:
  "run_batches environ a (batch # rest) w =
     (fst (extract_recipe_data environ a batch w)
        # fst (run_batches environ a rest (snd (extract_recipe_data environ a batch w))),
      snd (run_batches environ a rest (snd (extract_recipe_data environ a batch w))))"
  by (simp add: case_prod_beta)

lemma run_batches_length:
  "length (fst (run_batches environ a batches w)) = length batches"
  by (induction batches arbitrary: w) (simp_all add: run_batches_Cons del: run_batches.simps(2))


lemma collect_results_all_Inr:
  "list_all (\<lambda>r. \<exists>x. r = Inr x) rs \<Longrightarrow> collect_results rs = Inr (map projr rs)"
  by (induction rs rule: collect_results.induct) auto

lemma run_batches_all_Inr:
  "list_all (\<lambda>r. \<exists>x. r = Inr x) (fst (run_batches environ a batches w))"
proof (induction batches arbitrary: w)
  case Nil
  then show ?case by simp
next
  case (Cons batch rest)
  from extract_recipe_data_returns[of environ a batch w] Cons.IH
  show ?case by (auto simp: run_batches_Cons simp del: run_batches.simps(2))
qed

lemma threaded_extraction_results:
  assumes "MAX_WORKERS environ = PInt n" "0 < n"
  shows "threaded_extraction environ a batches w =
           (Inr (map projr (fst (run_batches environ a batches w))),
            snd (run_batches environ a batches w))"
  using assms collect_results_all_Inr[OF run_batches_all_Inr[of environ a batches w]]
  by (simp add: threaded_extraction_def case_prod_beta)



section \<open>Configuration read from the environment\<close>

text \<open>
  Claim C10. A \<^verbatim>\<open>BATCH_SIZE\<close> set in the environment reaches \<^verbatim>\<open>range\<close> as a str, so
  building the batches raises TypeError for every list of recipes, and with it the
  handler for every event whose first object can be fetched. Only when the variable is
  unset is the batch size the int 100, and the batches are then the slices of 100. The
  same holds for \<^verbatim>\<open>MAX_WORKERS\<close>: set, the pool's constructor raises TypeError; unset, the
  worker count is the int 10 and there is one result per batch.
\<close>

theorem batch_size_read_as_str:
  "(environ ''BATCH_SIZE'' = Some s \<longrightarrow>
      make_batches (BATCH_SIZE environ) recipes = Inl TypeError)
   \<and> (environ ''BATCH_SIZE'' = Some s \<and> get_object_result a bucket key = Inr recipes \<longrightarrow>
        fst (extraction_lambda_handler environ a ((bucket, key) # rest) w) = Inl TypeError)
   \<and> (environ ''BATCH_SIZE'' = None \<longrightarrow>
        (\<exists>bs. make_batches (BATCH_SIZE environ) recipes = Inr bs
           \<and> make_batches (PInt 100) recipes = Inr bs
           \<and> concat bs = recipes
           \<and> length bs = (length recipes + 100 - 1) div 100))
   \<and> (environ ''MAX_WORKERS'' = Some s' \<longrightarrow>
        threaded_extraction environ a batches w = (Inl TypeError, w))
   \<and> (environ ''MAX_WORKERS'' = None \<longrightarrow>
        (\<exists>results w1. threaded_extraction environ a batches w = (Inr results, w1)
           \<and> length results = length batches))"
proof (intro conjI impI)
  assume "environ ''BATCH_SIZE'' = Some s"
  then show "make_batches (BATCH_SIZE environ) recipes = Inl TypeError"
    by (simp add: BATCH_SIZE_def environ_get_def make_batches_def)
next
  assume "environ ''BATCH_SIZE'' = Some s \<and> get_object_result a bucket key = Inr recipes"
  then show "fst (extraction_lambda_handler environ a ((bucket, key) # rest) w) = Inl TypeError"
    by (simp add: extraction_lambda_handler_def BATCH_SIZE_def environ_get_def make_batches_def)
next
  assume none: "environ ''BATCH_SIZE'' = None"
  have "make_batches (PInt 100) recipes = Inr (slices_from recipes 100 0)"
    using make_batches_slices[of 100 recipes] by simp
  moreover have "BATCH_SIZE environ = PInt 100"
    using none by (simp add: BATCH_SIZE_def environ_get_def)
  moreover have "concat (slices_from recipes 100 0) = recipes"
    using concat_slices_from[of 100 recipes 0] by simp
  moreover have "length (slices_from recipes 100 0) = (length recipes + 100 - 1) div 100"
    using length_slices_from[of 100 recipes 0] by simp
  ultimately show "\<exists>bs. make_batches (BATCH_SIZE environ) recipes = Inr bs
           \<and> make_batches (PInt 100) recipes = Inr bs
           \<and> concat bs = recipes
           \<and> length bs = (length recipes + 100 - 1) div 100"
    by simp
next
  assume "environ ''MAX_WORKERS'' = Some s'"
  then show "threaded_extraction environ a batches w = (Inl TypeError, w)"
    by (simp add: threaded_extraction_def MAX_WORKERS_def environ_get_def)
next
  assume "environ ''MAX_WORKERS'' = None"
  then have "MAX_WORKERS environ = PInt 10" by (simp add: MAX_WORKERS_def environ_get_def)
  from threaded_extraction_results[OF this, of a batches w]
  show "\<exists>results w1. threaded_extraction environ a batches w = (Inr results, w1)
           \<and> length results = length batches"
    by (simp add: run_batches_length)
qed

theorem batch_size_read_as_str_witness:
  "make_batches (BATCH_SIZE [''BATCH_SIZE'' \<mapsto> ''100'']) [pancakes] = Inl TypeError
   \<and> fst (extraction_lambda_handler [''BATCH_SIZE'' \<mapsto> ''100''] quarantine_down_mixed
            [(''raw-recipes-data'', ''test_recipes.json'')] empty_world) = Inl TypeError
   \<and> make_batches (BATCH_SIZE Map.empty) [pancakes] = Inr [[pancakes]]
   \<and> threaded_extraction [''MAX_WORKERS'' \<mapsto> ''10''] quarantine_down [[pancakes]] empty_world
       = (Inl TypeError, empty_world)
   \<and> length (projr (fst (threaded_extraction Map.empty quarantine_down [[pancakes]] empty_world))) = 1"
proof -
  have g: "get_object_result quarantine_down_mixed ''raw-recipes-data'' ''test_recipes.json''
             = Inr [JObj [], pancakes]"
    by (simp add: quarantine_down_mixed_def quarantine_down_def)
  note t1 = batch_size_read_as_str[where environ = "[''BATCH_SIZE'' \<mapsto> ''100'']" and s = "''100''"
      and recipes = "[pancakes]" and a = quarantine_down and bucket = "[]" and key = "[]"
      and rest = "[]" and w = empty_world and s' = "[]" and batches = "[]"]
  note t2 = batch_size_read_as_str[where environ = "[''BATCH_SIZE'' \<mapsto> ''100'']" and s = "''100''"
      and recipes = "[JObj [], pancakes]" and a = quarantine_down_mixed
      and bucket = "''raw-recipes-data''" and key = "''test_recipes.json''"
      and rest = "[]" and w = empty_world and s' = "[]" and batches = "[]"]
  note t3 = batch_size_read_as_str[where environ = Map.empty and s = "[]"
      and recipes = "[pancakes]" and a = quarantine_down and bucket = "[]" and key = "[]"
      and rest = "[]" and w = empty_world and s' = "[]" and batches = "[[pancakes]]"]
  note t4 = batch_size_read_as_str[where environ = "[''MAX_WORKERS'' \<mapsto> ''10'']" and s = "[]"
      and recipes = "[pancakes]" and a = quarantine_down and bucket = "[]" and key = "[]"
      and rest = "[]" and w = empty_world and s' = "''10''" and batches = "[[pancakes]]"]
  have b: "make_batches (PInt 100) [pancakes] = Inr [[pancakes]]"
    by (simp add: make_batches_def py_slice_def slice_index_def py_range.simps[of _ 1 100])
  from t1 have c1: "make_batches (BATCH_SIZE [''BATCH_SIZE'' \<mapsto> ''100'']) [pancakes] = Inl TypeError"
    by simp
  from t2 g have c2: "fst (extraction_lambda_handler [''BATCH_SIZE'' \<mapsto> ''100''] quarantine_down_mixed
            [(''raw-recipes-data'', ''test_recipes.json'')] empty_world) = Inl TypeError"
    by (simp del: handle_records.simps)
  from t3 b have c3: "make_batches (BATCH_SIZE Map.empty) [pancakes] = Inr [[pancakes]]"
    by auto
  from t4 have c4: "threaded_extraction [''MAX_WORKERS'' \<mapsto> ''10''] quarantine_down [[pancakes]] empty_world
       = (Inl TypeError, empty_world)"
    by simp
  from t3 have c5: "length (projr (fst (threaded_extraction Map.empty quarantine_down [[pancakes]] empty_world))) = 1"
    by auto
  from c1 c2 c3 c4 c5 show ?thesis by simp
qed

section \<open>Feature Transformer: time estimate\<close>

lemma first_some_None_iff: "first_some xs = None \<longleftrightarrow> (\<forall>x \<in> set xs. x = None)"
  by (induction xs rule: first_some.induct) auto

lemma first_some_desc_None:
  assumes "first_some (map f (rev [a..<b])) = None" "a \<le> k" "k < b"
  shows "f k = None"
  using assms by (auto simp: first_some_None_iff)

lemma first_some_desc_Some:
  "first_some (map f (rev [a..<b])) = Some y \<Longrightarrow>
     \<exists>k. a \<le> k \<and> k < b \<and> f k = Some y \<and> (\<forall>k'. k < k' \<and> k' < b \<longrightarrow> f k' = None)"
proof (induction b)
  case 0
  then show ?case by simp
next
  case (Suc b)
  show ?case
  proof (cases "a \<le> b")
    case False
    with Suc.prems show ?thesis by simp
  next
    case True
    then have list: "rev [a..<Suc b] = b # rev [a..<b]" by simp
    show ?thesis
    proof (cases "f b")
      case (Some z)
      with Suc.prems list have "z = y" by simp
      with Some True show ?thesis by (intro exI[of _ b]) auto
    next
      case None
      with Suc.prems list have "first_some (map f (rev [a..<b])) = Some y" by simp
      from Suc.IH[OF this] obtain k where
        k: "a \<le> k" "k < b" "f k = Some y" "\<forall>k'. k < k' \<and> k' < b \<longrightarrow> f k' = None" by blast
      have "\<forall>k'. k < k' \<and> k' < Suc b \<longrightarrow> f k' = None"
      proof (intro allI impI)
        fix k' assume "k < k' \<and> k' < Suc b"
        then show "f k' = None" using k(4) None by (cases "k' = b") auto
      qed
      with k show ?thesis by (intro exI[of _ k]) auto
    qed
  qed
qed

lemma first_some_desc_top:
  assumes "a < b" "f (b - 1) = Some y"
  shows "first_some (map f (rev [a..<b])) = Some y"
proof -
  from assms(1) obtain c where b: "b = Suc c" "a \<le> c" by (cases b) auto
  then have "rev [a..<b] = c # rev [a..<c]" by simp
  with assms(2) b show ?thesis by simp
qed

lemma run_prefix_le:
  "list_all P xs \<Longrightarrow> length xs \<le> length (takeWhile P (xs @ ys))"
  by (induction xs) auto

lemma take_run: "j \<le> length (takeWhile P s) \<Longrightarrow> list_all P (take j s)"
proof (induction s arbitrary: j)
  case Nil
  then show ?case by simp
next
  case (Cons c cs)
  then show ?case by (cases j) (auto split: if_splits)
qed

lemma word_here_Some:
  assumes "word_here u s = Some (w, r)"
  shows "s = w @ r" "w \<noteq> []" "list_all (is_word u) w" "w = takeWhile (is_word u) s"
proof -
  from assms show w: "w = takeWhile (is_word u) s" and "w \<noteq> []"
    by (auto simp: word_here_def Let_def split: if_splits)
  from assms have "r = drop (length w) s"
    by (auto simp: word_here_def Let_def split: if_splits)
  then show "s = w @ r" using w by (metis takeWhile_dropWhile_id dropWhile_eq_drop)
  show "list_all (is_word u) w" unfolding w by (simp add: list_all_iff) (meson set_takeWhileD)
qed

lemma word_here_None_prefix:
  assumes "word_here u (w' @ r') = None" "list_all (is_word u) w'"
  shows "w' = []"
proof -
  from assms(1) have "takeWhile (is_word u) (w' @ r') = []"
    by (auto simp: word_here_def Let_def split: if_splits)
  with run_prefix_le[OF assms(2), of r'] show ?thesis by simp
qed


lemma spaces_word_here_Some:
  assumes "spaces_word_here u s = Some (w, r)"
  shows "\<exists>sp. s = sp @ w @ r \<and> list_all (is_space u) sp \<and> w \<noteq> [] \<and> list_all (is_word u) w
           \<and> (\<forall>sp' w' r'. s = sp' @ w' @ r' \<and> list_all (is_space u) sp' \<and> w' \<noteq> []
                  \<and> list_all (is_word u) w' \<longrightarrow>
                  length sp' < length sp \<or> (length sp' = length sp \<and> length w' \<le> length w))"
proof -
  let ?n = "length (takeWhile (is_space u) s)"
  from first_some_desc_Some[OF assms[unfolded spaces_word_here_def]]
  obtain j where j: "j < Suc ?n" "word_here u (drop j s) = Some (w, r)"
    and later: "\<forall>j'. j < j' \<and> j' < Suc ?n \<longrightarrow> word_here u (drop j' s) = None"
    by blast
  from word_here_Some[OF j(2)] have d: "drop j s = w @ r" and w: "w \<noteq> []" "list_all (is_word u) w"
    and wt: "w = takeWhile (is_word u) (drop j s)" by simp_all
  have jl: "j \<le> length s" using j(1) length_takeWhile_le[of "is_space u" s] by simp
  define sp where "sp = take j s"
  have s: "s = sp @ w @ r" unfolding sp_def using d by (metis append_take_drop_id)
  have sps: "list_all (is_space u) sp" unfolding sp_def using j(1) by (intro take_run) simp
  have len: "length sp = j" unfolding sp_def using jl by simp
  have best: "length sp' < length sp \<or> (length sp' = length sp \<and> length w' \<le> length w)"
    if h: "s = sp' @ w' @ r'" "list_all (is_space u) sp'" "w' \<noteq> []" "list_all (is_word u) w'"
    for sp' w' r'
  proof -
    from run_prefix_le[OF h(2), of "w' @ r'"] h(1) have le: "length sp' \<le> ?n" by simp
    have dr: "drop (length sp') s = w' @ r'" using h(1) by simp
    have "\<not> j < length sp'"
    proof
      assume "j < length sp'"
      with later le have "word_here u (drop (length sp') s) = None" by simp
      with dr word_here_None_prefix[of u w' r'] h(3,4) show False by simp
    qed
    moreover have "length w' \<le> length w" if "length sp' = j"
    proof -
      from that dr have "drop j s = w' @ r'" by simp
      with wt run_prefix_le[OF h(4), of r'] show ?thesis by simp
    qed
    ultimately show ?thesis unfolding len by (cases "length sp' = j") auto
  qed
  have "s = sp @ w @ r \<and> list_all (is_space u) sp \<and> w \<noteq> [] \<and> list_all (is_word u) w
           \<and> (\<forall>sp' w' r'. s = sp' @ w' @ r' \<and> list_all (is_space u) sp' \<and> w' \<noteq> []
                  \<and> list_all (is_word u) w' \<longrightarrow>
                  length sp' < length sp \<or> (length sp' = length sp \<and> length w' \<le> length w))"
    using s sps w best by blast
  then show ?thesis by (rule exI)
qed

lemma spaces_word_here_None:
  assumes "spaces_word_here u s = None"
    and "s = sp' @ w' @ r'" "list_all (is_space u) sp'" "list_all (is_word u) w'"
  shows "w' = []"
proof -
  from run_prefix_le[OF assms(3), of "w' @ r'"] assms(2)
  have "length sp' < Suc (length (takeWhile (is_space u) s))" by simp
  from first_some_desc_None[OF assms(1)[unfolded spaces_word_here_def] _ this]
  have "word_here u (drop (length sp') s) = None" by simp
  with assms(2) have "word_here u (w' @ r') = None" by simp
  from word_here_None_prefix[OF this assms(4)] show ?thesis .
qed

lemma match_here_Some:
  assumes "match_here u s = Some (d, w, r)"
  shows "\<exists>sp. occurrence u s (d, sp, w, r)
           \<and> (\<forall>x. occurrence u s x \<longrightarrow> not_longer x (d, sp, w, r))"
proof -
  let ?n = "length (takeWhile (is_digit u) s)"
  let ?f = "\<lambda>k. case spaces_word_here u (drop k s) of
                   None \<Rightarrow> None
                 | Some (w, rest) \<Rightarrow> Some (take k s, w, rest)"
  from first_some_desc_Some[OF assms[unfolded match_here_def]]
  obtain k where k: "1 \<le> k" "k < Suc ?n" "?f k = Some (d, w, r)"
    and later: "\<forall>k'. k < k' \<and> k' < Suc ?n \<longrightarrow> ?f k' = None"
    by blast
  from k(3) have dk: "d = take k s" and sw: "spaces_word_here u (drop k s) = Some (w, r)"
    by (auto split: option.splits)
  from spaces_word_here_Some[OF sw] obtain sp where
    sp: "drop k s = sp @ w @ r" "list_all (is_space u) sp" "w \<noteq> []" "list_all (is_word u) w"
    and spbest: "\<forall>sp' w' r'. drop k s = sp' @ w' @ r' \<and> list_all (is_space u) sp' \<and> w' \<noteq> []
                  \<and> list_all (is_word u) w' \<longrightarrow>
                  length sp' < length sp \<or> (length sp' = length sp \<and> length w' \<le> length w)"
    by blast
  have kl: "k \<le> length s" using k(2) length_takeWhile_le[of "is_digit u" s] by simp
  have lend: "length d = k" using dk kl by simp
  have s: "s = d @ sp @ w @ r" using sp(1) dk by (metis append_take_drop_id)
  have dd: "list_all (is_digit u) d" unfolding dk using k(2) by (intro take_run) simp
  have dne: "d \<noteq> []" using lend k(1) by auto
  have occ: "occurrence u s (d, sp, w, r)"
    using s dd dne sp by (simp add: occurrence_def)
  have best: "not_longer x (d, sp, w, r)" if ox: "occurrence u s x" for x
  proof -
    obtain d' sp' w' r' where x: "x = (d', sp', w', r')" by (cases x) auto
    from ox x have h: "s = d' @ sp' @ w' @ r'" "d' \<noteq> []" "list_all (is_digit u) d'"
      "list_all (is_space u) sp'" "w' \<noteq> []" "list_all (is_word u) w'"
      by (simp_all add: occurrence_def)
    from run_prefix_le[OF h(3), of "sp' @ w' @ r'"] h(1) have le: "length d' \<le> ?n" by simp
    have dr: "drop (length d') s = sp' @ w' @ r'" using h(1) by simp
    have "\<not> k < length d'"
    proof
      assume "k < length d'"
      with later le have "?f (length d') = None" by simp
      then have "spaces_word_here u (drop (length d') s) = None" by (auto split: option.splits)
      from spaces_word_here_None[OF this dr h(4) h(6)] h(5) show False by simp
    qed
    moreover have "length sp' < length sp \<or> (length sp' = length sp \<and> length w' \<le> length w)"
      if "length d' = k"
    proof -
      from that dr have "drop k s = sp' @ w' @ r'" by simp
      with spbest h(4,5,6) show ?thesis by blast
    qed
    ultimately show ?thesis
      unfolding x by (cases "length d' = k") (auto simp: not_longer_def lend)
  qed
  from occ best show ?thesis by blast
qed

lemma match_here_None:
  assumes "match_here u s = None"
  shows "\<not> occurrence u s x"
proof
  assume ox: "occurrence u s x"
  obtain d' sp' w' r' where x: "x = (d', sp', w', r')" by (cases x) auto
  from ox x have h: "s = d' @ sp' @ w' @ r'" "d' \<noteq> []" "list_all (is_digit u) d'"
    "list_all (is_space u) sp'" "w' \<noteq> []" "list_all (is_word u) w'"
    by (simp_all add: occurrence_def)
  let ?f = "\<lambda>k. case spaces_word_here u (drop k s) of
                   None \<Rightarrow> None
                 | Some (w, rest) \<Rightarrow> Some (take k s, w, rest)"
  from run_prefix_le[OF h(3), of "sp' @ w' @ r'"] h(1)
  have le: "length d' < Suc (length (takeWhile (is_digit u) s))" by simp
  have ge: "1 \<le> length d'" using h(2) by (cases d') auto
  from first_some_desc_None[OF assms[unfolded match_here_def] ge le]
  have "spaces_word_here u (drop (length d') s) = None" by (auto split: option.splits)
  moreover have "drop (length d') s = sp' @ w' @ r'" using h(1) by simp
  ultimately show False using spaces_word_here_None h(4,5,6) by blast
qed


lemma occurrence_unique:
  assumes "occurrence u s x" "occurrence u s y" "not_longer x y" "not_longer y x"
  shows "x = y"
proof -
  obtain d sp w r where x: "x = (d, sp, w, r)" by (cases x) auto
  obtain d' sp' w' r' where y: "y = (d', sp', w', r')" by (cases y) auto
  from assms(3,4) have l: "length d = length d'" "length sp = length sp'" "length w = length w'"
    unfolding x y not_longer_def by auto
  from assms(1,2) have "d @ sp @ w @ r = d' @ sp' @ w' @ r'"
    unfolding x y occurrence_def by simp
  with l show ?thesis unfolding x y by simp
qed

lemma findall_Nil: "findall u [] = []"
  by (simp add: findall.simps)

lemma findall_Some:
  assumes "match_here u s = Some (d, w, r)"
  shows "findall u s = (d, w) # findall u r"
proof -
  from match_here_shorter[OF assms] have "s \<noteq> []" by auto
  with assms show ?thesis by (simp add: findall.simps[of u s])
qed

lemma findall_None: "match_here u (c # cs) = None \<Longrightarrow> findall u (c # cs) = findall u cs"
  by (simp add: findall.simps[of u "c # cs"])

lemma scan_findall: "scan u s ms \<Longrightarrow> findall u s = ms"
proof (induction rule: scan.induct)
  case scan_end
  show ?case by (rule findall_Nil)
next
  case (scan_occurrence s d sp w r ms)
  from scan_occurrence(1) match_here_None[of u s] obtain d0 w0 r0 where
    m: "match_here u s = Some (d0, w0, r0)" by (cases "match_here u s") auto
  from match_here_Some[OF m] obtain sp0 where
    o: "occurrence u s (d0, sp0, w0, r0)"
    and b: "\<forall>x. occurrence u s x \<longrightarrow> not_longer x (d0, sp0, w0, r0)" by blast
  from scan_occurrence(1,2) o b have "(d0, sp0, w0, r0) = (d, sp, w, r)"
    by (intro occurrence_unique[of u s]) auto
  with m have "match_here u s = Some (d, w, r)" by simp
  from findall_Some[OF this] scan_occurrence.IH show ?case by simp
next
  case (scan_skip c cs ms)
  have "match_here u (c # cs) = None"
  proof (cases "match_here u (c # cs)")
    case None
    then show ?thesis .
  next
    case (Some m)
    obtain d w r where "m = (d, w, r)" by (cases m) auto
    with Some match_here_Some[of u "c # cs" d w r] scan_skip(1) show ?thesis by blast
  qed
  from findall_None[OF this] scan_skip.IH show ?case by simp
qed

lemma findall_scan: "scan u s (findall u s)"
proof (induction u s rule: findall.induct)
  case (1 u s)
  show ?case
  proof (cases s)
    case Nil
    then show ?thesis by (simp add: findall_Nil scan_end)
  next
    case (Cons c cs)
    show ?thesis
    proof (cases "match_here u s")
      case None
      with Cons 1 have "scan u cs (findall u cs)" by simp
      moreover from None have "\<forall>x. \<not> occurrence u (c # cs) x"
        using match_here_None Cons by blast
      ultimately have "scan u (c # cs) (findall u cs)" by (intro scan_skip)
      with None Cons findall_None[of u c cs] show ?thesis by simp
    next
      case (Some m)
      obtain d w r where m: "m = (d, w, r)" by (cases m) auto
      with Some have mh: "match_here u s = Some (d, w, r)" by simp
      from 1 mh Cons have ih: "scan u r (findall u r)" by simp
      from match_here_Some[OF mh] obtain sp where
        "occurrence u s (d, sp, w, r)"
        "\<forall>x. occurrence u s x \<longrightarrow> not_longer x (d, sp, w, r)" by blast
      from scan_occurrence[OF this ih] findall_Some[OF mh] show ?thesis by simp
    qed
  qed
qed

lemma unit_seconds_table: "map_of TIME_UNITS w = unit_seconds w"
  by (simp add: TIME_UNITS_def unit_seconds_def)

lemma match_loop_mentions:
  "match_loop u ms (t, any_match) =
     (if convertible_matches u ms
      then Inr (t + sum_list (mentions_of u ms), any_match \<or> mentions_of u ms \<noteq> [])
      else Inl ValueError)"
proof (induction ms arbitrary: t any_match)
  case Nil
  then show ?case by (simp add: mentions_of_def convertible_matches_def)
next
  case (Cons m ms)
  obtain number w where m: "m = (number, w)" by (cases m)
  show ?case
  proof (cases "unit_seconds w")
    case None
    with Cons.IH[of t any_match] m show ?thesis
      by (simp add: unit_seconds_table mentions_of_def convertible_matches_def)
  next
    case (Some secs)
    show ?thesis
    proof (cases "too_many_digits u number")
      case True
      with Some m show ?thesis
        by (simp add: unit_seconds_table convertible_matches_def py_int_def)
    next
      case False
      with Some Cons.IH[of "t + number_value u number * secs" True] m show ?thesis
        by (simp add: unit_seconds_table mentions_of_def convertible_matches_def py_int_def)
    qed
  qed
qed

lemma direction_step:
  "match_loop u (findall u d) (t, False) =
     (if convertible u d then Inr (t + sum_list (time_mentions u d), time_mentions u d \<noteq> [])
      else Inl ValueError)"
  by (simp add: match_loop_mentions time_mentions_def convertible_def)

lemma direction_loop_sum:
  "direction_loop u (map JStr ds) t =
     (if list_all (convertible u) ds then Inr (t + sum_list (map (direction_seconds u) ds))
      else Inl ValueError)"
proof (induction ds arbitrary: t)
  case Nil
  then show ?case by simp
next
  case (Cons d ds)
  show ?case
  proof (cases "convertible u d")
    case False
    then show ?thesis by (simp add: direction_step)
  next
    case True
    show ?thesis
    proof (cases "time_mentions u d = []")
      case True
      then have "direction_seconds u d = 300" by (simp add: direction_seconds_def)
      with True \<open>convertible u d\<close> show ?thesis
        using Cons.IH[of "t + 300"] by (simp add: direction_step)
    next
      case False
      then have "direction_seconds u d = sum_list (time_mentions u d)"
        by (simp add: direction_seconds_def)
      with False \<open>convertible u d\<close> show ?thesis
        using Cons.IH[of "t + sum_list (time_mentions u d)"] by (simp add: direction_step)
    qed
  qed
qed

lemma match_here_no_digit: "\<not> is_digit u c \<Longrightarrow> match_here u (c # cs) = None"
  by (simp add: match_here_def)

lemma findall_skip: "\<not> is_digit u c \<Longrightarrow> findall u (c # cs) = findall u cs"
  by (simp add: findall_None match_here_no_digit)

lemma findall_no_digit:
  "list_all (\<lambda>c. \<not> is_digit u c) s \<Longrightarrow> findall u s = []"
  by (induction s) (simp_all add: findall_Nil findall_skip)

lemmas eval_findall =
  findall_Nil findall_skip findall_Some match_here_def spaces_word_here_def word_here_def
  is_digit_def is_space_def is_word_def ascii_def Let_def upt_rec

lemma boil_findall:
  "findall u (ascii ''Boil for 10 minutes'') = [(ascii ''10'', ascii ''minutes'')]"
  by (simp add: eval_findall)

lemma wait_findall:
  "findall u (ascii ''Wait 2 hours and 30 minutes'')
     = [(ascii ''2'', ascii ''hours''), (ascii ''30'', ascii ''minutes'')]"
  by (simp add: eval_findall)

lemma dashes_findall: "findall u (ascii ''10 dashes'') = [(ascii ''10'', ascii ''dashes'')]"
  by (simp add: eval_findall)


lemma boil_example: "direction_seconds u (ascii ''Boil for 10 minutes'') = 600"
  by (simp add: direction_seconds_def time_mentions_def boil_findall)
     (simp add: mentions_of_def unit_seconds_def number_value_def digit_value_def ascii_def)

lemma wait_example: "direction_seconds u (ascii ''Wait 2 hours and 30 minutes'') = 9000"
  by (simp add: direction_seconds_def time_mentions_def wait_findall)
     (simp add: mentions_of_def unit_seconds_def number_value_def digit_value_def ascii_def)

lemma dashes_example: "direction_seconds u (ascii ''10 dashes'') = 300"
  by (simp add: direction_seconds_def time_mentions_def dashes_findall)
     (simp add: mentions_of_def unit_seconds_def number_value_def digit_value_def ascii_def)

lemma arabic_findall:
  "findall cpython_sample arabic_direction = [([1633, 1632], ascii ''minutes'')]"
  by (simp add: eval_findall cpython_sample_def arabic_direction_def)

lemma arabic_example: "direction_seconds cpython_sample arabic_direction = 600"
  by (simp add: direction_seconds_def time_mentions_def arabic_findall)
     (simp add: mentions_of_def unit_seconds_def number_value_def digit_value_def ascii_def
        cpython_sample_def)

lemma takeWhile_run:
  "P x \<Longrightarrow> \<not> P y \<Longrightarrow> takeWhile P (replicate n x @ y # ys) = replicate n x"
  by (induction n) simp_all

lemma long_number_findall:
  assumes "0 < n"
  shows "findall u (replicate n 57 @ ascii '' seconds'') = [(replicate n 57, ascii ''seconds'')]"
proof -
  let ?s = "replicate n 57 @ ascii '' seconds''"
  have run: "takeWhile (is_digit u) ?s = replicate n 57"
    by (simp add: ascii_def takeWhile_run is_digit_def)
  have sw: "spaces_word_here u (ascii '' seconds'') = Some (ascii ''seconds'', [])"
    by (simp add: spaces_word_here_def word_here_def is_space_def is_word_def ascii_def
        Let_def upt_rec)
  have "match_here u ?s = Some (replicate n 57, ascii ''seconds'', [])"
    unfolding match_here_def run using assms
    by (intro first_some_desc_top) (simp_all add: sw)
  from findall_Some[OF this] show ?thesis by (simp add: findall_Nil)
qed

lemma long_number_raises:
  "get_time_estimate cpython_sample (JArr [JStr (replicate 4301 57 @ ascii '' seconds'')])
     = Inl ValueError"
proof -
  have "convertible cpython_sample (replicate 4301 57 @ ascii '' seconds'') = False"
    using long_number_findall[of 4301 cpython_sample]
    by (simp add: convertible_def convertible_matches_def unit_seconds_def too_many_digits_def
        cpython_sample_def)
  with direction_loop_sum[of cpython_sample "[replicate 4301 57 @ ascii '' seconds'']" 0]
  show ?thesis by (simp add: get_time_estimate_def)
qed


lemma scan_numbers_short: "scan u s ms \<Longrightarrow> list_all (\<lambda>m. length (fst m) \<le> length s) ms"
proof (induction rule: scan.induct)
  case scan_end
  show ?case by simp
next
  case (scan_occurrence s d sp w r ms)
  from scan_occurrence(1) have s: "s = d @ sp @ w @ r" by (simp add: occurrence_def)
  from scan_occurrence.IH have "list_all (\<lambda>m. length (fst m) \<le> length s) ms"
    unfolding s by (auto simp: list_all_iff)
  then show ?case unfolding s by simp
next
  case (scan_skip c cs ms)
  then show ?case by (auto simp: list_all_iff)
qed

lemma convertible_short:
  assumes "int_max_str_digits u = 0 \<or> length d \<le> 640 \<or> length d \<le> int_max_str_digits u"
  shows "convertible u d"
proof -
  have "list_all (\<lambda>m. length (fst m) \<le> length d) (findall u d)"
    by (rule scan_numbers_short) (rule findall_scan)
  with assms show ?thesis
    by (auto simp: convertible_def convertible_matches_def too_many_digits_def list_all_iff)
qed

text \<open>
  Claim C1 says that for every list of direction strings the time estimate is the sum of
  what the mentions contribute. The direction made of 4301 nines followed by
  \<^verbatim>\<open> seconds\<close> is scanned as one mention in seconds, and under the default limit of 4300
  digits \<^verbatim>\<open>int\<close> raises ValueError for its number: \<^verbatim>\<open>get_time_estimate\<close> raises and
  there is no estimate.
\<close>

theorem time_estimate_counterexample:
  "get_time_estimate cpython_sample (JArr [JStr (replicate 4301 57 @ ascii '' seconds'')])
     = Inl ValueError
   \<and> findall cpython_sample (replicate 4301 57 @ ascii '' seconds'')
       = [(replicate 4301 57, ascii ''seconds'')]
   \<and> list_all (is_digit cpython_sample) (replicate 4301 57)
   \<and> map_of TIME_UNITS (ascii ''seconds'') = Some 1"
proof -
  have "list_all (is_digit cpython_sample) (replicate 4301 57)"
    by (simp add: list_all_iff is_digit_def)
  moreover have "map_of TIME_UNITS (ascii ''seconds'') = Some 1"
    by (simp add: unit_seconds_table unit_seconds_def ascii_def)
  ultimately show ?thesis
    using long_number_raises long_number_findall[of 4301 cpython_sample] by simp
qed

text \<open>
  Claim C1, amended. For every interpreter and every list of direction strings: when
  every direction is convertible, \<^verbatim>\<open>get_time_estimate\<close> returns the sum over the
  directions of \<open>direction_seconds\<close>, and otherwise it raises ValueError. The matches that
  \<^verbatim>\<open>findall\<close> returns for a direction are the scan of the direction as the specification
  words it, and no other list is; a direction counts what the recognised mentions of its
  scan sum to, and 300 when there is none. The unit table of the code is the one of the
  specification. A direction with no recognised mention counts 300, also when it has
  matches with other words, as \<^verbatim>\<open>10 dashes\<close> has; a string with no digit has no match
  at all. A direction is convertible when the limit is off, and when it has at most 640
  characters or no more characters than the limit.
  \<^verbatim>\<open>Boil for 10 minutes\<close> counts 600 and \<^verbatim>\<open>Wait 2 hours and 30 minutes\<close> counts 9000.
\<close>

theorem time_estimate_contract:
  "get_time_estimate u (JArr (map JStr directions))
     = (if list_all (convertible u) directions
        then Inr (sum_list (map (direction_seconds u) directions))
        else Inl ValueError)
   \<and> (scan u d ms \<longleftrightarrow> findall u d = ms)
   \<and> (scan u d ms \<longrightarrow>
        direction_seconds u d
          = (if mentions_of u ms = [] then 300 else sum_list (mentions_of u ms)))
   \<and> map_of TIME_UNITS = unit_seconds
   \<and> (time_mentions u d = [] \<longrightarrow> direction_seconds u d = 300)
   \<and> (list_all (\<lambda>c. \<not> is_digit u c) d \<longrightarrow> direction_seconds u d = 300)
   \<and> (int_max_str_digits u = 0 \<or> length d \<le> 640 \<or> length d \<le> int_max_str_digits u
        \<longrightarrow> convertible u d)
   \<and> direction_seconds u (ascii ''Boil for 10 minutes'') = 600
   \<and> direction_seconds u (ascii ''Wait 2 hours and 30 minutes'') = 9000
   \<and> findall u (ascii ''10 dashes'') = [(ascii ''10'', ascii ''dashes'')]
   \<and> direction_seconds u (ascii ''10 dashes'') = 300"
proof -
  have "get_time_estimate u (JArr (map JStr directions))
     = (if list_all (convertible u) directions
        then Inr (sum_list (map (direction_seconds u) directions))
        else Inl ValueError)"
    using direction_loop_sum[of u directions 0] by (simp add: get_time_estimate_def)
  moreover have "scan u d ms \<longleftrightarrow> findall u d = ms"
    using scan_findall[of u d ms] findall_scan[of u d] by blast
  moreover have "scan u d ms \<longrightarrow>
        direction_seconds u d
          = (if mentions_of u ms = [] then 300 else sum_list (mentions_of u ms))"
    using scan_findall[of u d ms] by (auto simp: direction_seconds_def time_mentions_def)
  moreover have "map_of TIME_UNITS = unit_seconds"
    by (rule ext) (rule unit_seconds_table)
  moreover have "time_mentions u d = [] \<longrightarrow> direction_seconds u d = 300"
    by (simp add: direction_seconds_def)
  moreover have "list_all (\<lambda>c. \<not> is_digit u c) d \<longrightarrow> direction_seconds u d = 300"
    by (simp add: findall_no_digit direction_seconds_def time_mentions_def mentions_of_def)
  moreover have "int_max_str_digits u = 0 \<or> length d \<le> 640 \<or> length d \<le> int_max_str_digits u
        \<longrightarrow> convertible u d"
    using convertible_short[of u d] by blast
  moreover have "direction_seconds u (ascii ''Boil for 10 minutes'') = 600"
    by (rule boil_example)
  moreover have "direction_seconds u (ascii ''Wait 2 hours and 30 minutes'') = 9000"
    by (rule wait_example)
  moreover have "findall u (ascii ''10 dashes'') = [(ascii ''10'', ascii ''dashes'')]"
    by (rule dashes_findall)
  moreover have "direction_seconds u (ascii ''10 dashes'') = 300"
    by (rule dashes_example)
  ultimately show ?thesis by (intro conjI)
qed

theorem time_estimate_contract_witness:
  "get_time_estimate cpython_sample
     (JArr [JStr (ascii ''Boil for 10 minutes''), JStr (ascii ''Stir well''),
            JStr (ascii ''Wait 2 hours and 30 minutes''), JStr (ascii ''10 dashes''),
            JStr arabic_direction]) = Inr 10800
   \<and> direction_seconds cpython_sample (ascii ''Stir well'') = 300
   \<and> scan cpython_sample (ascii ''Stir well'') []
   \<and> convertible cpython_sample (ascii ''Stir well'')"
proof -
  let ?ds = "[ascii ''Boil for 10 minutes'', ascii ''Stir well'',
              ascii ''Wait 2 hours and 30 minutes'', ascii ''10 dashes'', arabic_direction]"
  have nd: "list_all (\<lambda>c. \<not> is_digit cpython_sample c) (ascii ''Stir well'')"
    by (simp add: is_digit_def ascii_def)
  have len: "length (ascii ''Stir well'') \<le> 640" by (simp add: ascii_def)
  have conv: "list_all (convertible cpython_sample) ?ds"
    by (simp add: convertible_short arabic_direction_def ascii_def)
  have fa: "findall cpython_sample (ascii ''Stir well'') = []"
    using nd by (rule findall_no_digit)
  note t = time_estimate_contract[of cpython_sample ?ds "ascii ''Stir well''" "[]"]
  from t nd have stir: "direction_seconds cpython_sample (ascii ''Stir well'') = 300" by blast
  from t fa have sc: "scan cpython_sample (ascii ''Stir well'') []" by blast
  from t len have cv: "convertible cpython_sample (ascii ''Stir well'')" by blast
  from t have vals: "direction_seconds cpython_sample (ascii ''Boil for 10 minutes'') = 600"
    "direction_seconds cpython_sample (ascii ''Wait 2 hours and 30 minutes'') = 9000"
    "direction_seconds cpython_sample (ascii ''10 dashes'') = 300"
    by blast+
  from t conv have "get_time_estimate cpython_sample (JArr (map JStr ?ds))
     = Inr (sum_list (map (direction_seconds cpython_sample) ?ds))"
    by presburger
  then have "get_time_estimate cpython_sample (JArr (map JStr ?ds)) = Inr 10800"
    by (simp add: vals stir arabic_example)
  with stir sc cv show ?thesis by simp
qed


section \<open>Feature Transformer: complexity score and difficulty flag\<close>

lemma bit_length_bounds:
  "0 < n \<Longrightarrow> 2 ^ (bit_length n - 1) \<le> n \<and> n < 2 ^ bit_length n"
proof (induction n rule: bit_length.induct)
  case (1 n)
  show ?case
  proof (cases "n div 2 = 0")
    case True
    with "1.prems" have "n = 1" by (simp add: div_eq_0_iff)
    then show ?thesis by (simp add: bit_length.simps[of "Suc 0"] bit_length.simps[of 0])
  next
    case False
    with "1.IH" "1.prems" have ih: "2 ^ (bit_length (n div 2) - 1) \<le> n div 2"
      "n div 2 < 2 ^ bit_length (n div 2)" by simp_all
    have bl: "bit_length n = Suc (bit_length (n div 2))"
      using "1.prems" by (simp add: bit_length.simps[of n])
    have pos: "0 < bit_length (n div 2)"
      using False by (simp add: bit_length.simps[of "n div 2"])
    have "2 ^ (bit_length n - 1) = 2 * 2 ^ (bit_length (n div 2) - 1)"
      using bl pos by (cases "bit_length (n div 2)") simp_all
    also have "\<dots> \<le> 2 * (n div 2)" using ih(1) by simp
    also have "\<dots> \<le> n" by simp
    finally have lo: "2 ^ (bit_length n - 1) \<le> n" .
    have "n < 2 * (n div 2) + 2" by arith
    also have "\<dots> \<le> 2 * 2 ^ bit_length (n div 2)" using ih(2) by simp
    finally have "n < 2 ^ bit_length n" using bl by simp
    with lo show ?thesis by simp
  qed
qed

lemma bit_length_eqI:
  assumes "n < 2 ^ k" "2 ^ k \<le> 2 * n"
  shows "bit_length n = k"
proof -
  from assms have pos: "0 < n" by (cases n) auto
  from bit_length_bounds[OF pos] have lo: "2 ^ (bit_length n - 1) \<le> n" and hi: "n < 2 ^ bit_length n"
    by simp_all
  have "\<not> k < bit_length n"
  proof
    assume "k < bit_length n"
    then have "k \<le> bit_length n - 1" by simp
    then have "(2::nat) ^ k \<le> 2 ^ (bit_length n - 1)" by (rule power_increasing) simp
    with lo assms(1) show False by linarith
  qed
  moreover have "\<not> bit_length n < k"
  proof
    assume "bit_length n < k"
    then have "Suc (bit_length n) \<le> k" by simp
    then have "(2::nat) ^ Suc (bit_length n) \<le> 2 ^ k" by (rule power_increasing) simp
    then have "2 * (2::nat) ^ bit_length n \<le> 2 ^ k" by simp
    with hi assms(2) show False by linarith
  qed
  ultimately show ?thesis by simp
qed

lemma bit_length_small: "n < 2 ^ 53 \<Longrightarrow> bit_length n \<le> 53"
proof (cases "n = 0")
  case True
  then show ?thesis by (simp add: bit_length.simps[of 0])
next
  case False
  assume "n < 2 ^ 53"
  show ?thesis
  proof (rule ccontr)
    assume "\<not> bit_length n \<le> 53"
    then have "53 \<le> bit_length n - 1" by simp
    then have "(2::nat) ^ 53 \<le> 2 ^ (bit_length n - 1)" by (rule power_increasing) simp
    with bit_length_bounds[of n] False \<open>n < 2 ^ 53\<close> show False by linarith
  qed
qed

lemma to_double_exact: "n < 2 ^ 53 \<Longrightarrow> to_double n e = (n, e)"
  using bit_length_small[of n] by (simp add: to_double_def round_half_even_def)

lemma to_double_eval:
  assumes "n < 2 ^ k" "2 ^ k \<le> 2 * n"
  shows "to_double n e = (round_half_even n (k - 53), e + int (k - 53))"
  using bit_length_eqI[OF assms] by (simp add: to_double_def Let_def)

lemma score_6_1:
  "get_complexity_score (JArr [JStr (ascii ''egg'')])
     (JArr [JStr (ascii ''a''), JStr (ascii ''b''), JStr (ascii ''c''), JStr (ascii ''d''),
            JStr (ascii ''e''), JStr (ascii ''f'')])
   = Inr (9007199254740991, - 51)"
proof -
  have a: "float_of_nat 6 = (6, 0)" "float_of_nat 1 = (1, 0)"
    by (simp_all add: float_of_nat_def to_double_exact)
  have b: "fmul (6, 0) lit_0_6 = (8106479329266892, - 51)"
    unfolding fmul_def lit_0_6_def
    by (simp add: to_double_eval[of _ 55] round_half_even_def)
  have c: "fmul (1, 0) lit_0_4 = (3602879701896397, - 53)"
    unfolding fmul_def lit_0_4_def by (simp add: to_double_exact)
  have d: "fadd (8106479329266892, - 51) (3602879701896397, - 53) = (9007199254740991, - 51)"
    unfolding fadd_def
    by (simp add: to_double_eval[of _ 55] round_half_even_def)
  have l: "py_len (JArr [JStr (ascii ''a''), JStr (ascii ''b''), JStr (ascii ''c''),
                         JStr (ascii ''d''), JStr (ascii ''e''), JStr (ascii ''f'')]) = Inr 6"
    "py_len (JArr [JStr (ascii ''egg'')]) = Inr 1"
    by simp_all
  show ?thesis by (simp only: get_complexity_score_def l sum.case a b c d)
qed

lemma round_half_even_error:
  "2 * (round_half_even m s * 2 ^ s) \<le> 2 * m + 2 ^ s
   \<and> 2 * m \<le> 2 * (round_half_even m s * 2 ^ s) + 2 ^ s"
proof -
  define q r where "q = m div 2 ^ s" and "r = m mod 2 ^ s"
  have m: "m = q * 2 ^ s + r" unfolding q_def r_def by (rule div_mult_mod_eq[symmetric])
  have r: "r < 2 ^ s" by (simp add: r_def)
  have rhe: "round_half_even m s =
      (if 2 * r < 2 ^ s then q else if 2 ^ s < 2 * r then q + 1 else if even q then q else q + 1)"
    by (simp add: round_half_even_def q_def r_def Let_def)
  show ?thesis
  proof (cases "2 * r < 2 ^ s")
    case True
    with rhe have "round_half_even m s = q" by simp
    with True m show ?thesis by simp
  next
    case False
    show ?thesis
    proof (cases "2 ^ s < 2 * r")
      case True
      with rhe False have "round_half_even m s = q + 1" by simp
      with True m r show ?thesis by (simp add: algebra_simps)
    next
      case nlt: False
      with False have eq: "2 * r = 2 ^ s" by simp
      from rhe False nlt have "round_half_even m s = q \<or> round_half_even m s = q + 1" by simp
      with eq m show ?thesis by (auto simp: algebra_simps)
    qed
  qed
qed

lemma to_double_error_nat:
  assumes "to_double m e = (q, e')"
  shows "\<exists>s. e' = e + int s
           \<and> 2 ^ 53 * (q * 2 ^ s) \<le> (2 ^ 53 + 1) * m
           \<and> (2 ^ 53 - 1) * m \<le> 2 ^ 53 * (q * 2 ^ s)"
proof -
  define s where "s = bit_length m - 53"
  from assms have q: "q = round_half_even m s" and e': "e' = e + int s"
    by (simp_all add: to_double_def s_def Let_def)
  show ?thesis
  proof (cases "s = 0")
    case True
    then have "q = m" using q by (simp add: round_half_even_def)
    with True e' show ?thesis by (intro exI[of _ 0]) simp
  next
    case False
    then have k: "bit_length m = s + 53" by (simp add: s_def)
    then have "0 < m" by (cases "m = 0") (simp_all add: bit_length.simps[of 0])
    from bit_length_bounds[OF this] k have "2 ^ (s + 52) \<le> m" by (simp add: add.commute)
    then have big: "2 ^ s * 2 ^ 53 \<le> 2 * m" by (simp add: power_add)
    from round_half_even_error[of m s] q
    have up: "2 * (q * 2 ^ s) \<le> 2 * m + 2 ^ s" and lo: "2 * m \<le> 2 * (q * 2 ^ s) + 2 ^ s"
      by simp_all
    have "2 * (2 ^ 53 * (q * 2 ^ s)) = 2 ^ 53 * (2 * (q * 2 ^ s))" by simp
    also have "\<dots> \<le> 2 ^ 53 * (2 * m + 2 ^ s)" using up by (rule mult_le_mono2)
    also have "\<dots> = 2 * (2 ^ 53 * m) + 2 ^ s * 2 ^ 53" by (simp add: algebra_simps)
    also have "\<dots> \<le> 2 * (2 ^ 53 * m) + 2 * m" using big by simp
    finally have a: "2 ^ 53 * (q * 2 ^ s) \<le> (2 ^ 53 + 1) * m" by (simp add: algebra_simps)
    have "2 * ((2 ^ 53 - 1) * m) + 2 * m = 2 ^ 53 * (2 * m)" by (simp add: algebra_simps)
    also have "\<dots> \<le> 2 ^ 53 * (2 * (q * 2 ^ s) + 2 ^ s)" using lo by (rule mult_le_mono2)
    also have "\<dots> = 2 * (2 ^ 53 * (q * 2 ^ s)) + 2 ^ s * 2 ^ 53" by (simp add: algebra_simps)
    also have "\<dots> \<le> 2 * (2 ^ 53 * (q * 2 ^ s)) + 2 * m" using big by simp
    finally have b: "(2 ^ 53 - 1) * m \<le> 2 ^ 53 * (q * 2 ^ s)" by simp
    from a b e' show ?thesis by blast
  qed
qed

lemma half_ulp_bounds: "0 < half_ulp" "half_ulp < 1" "0 \<le> 1 - half_ulp" "0 \<le> 1 + half_ulp"
  by (simp_all add: half_ulp_def)

lemma dbl_val_nonneg: "0 \<le> dbl_val x"
  by (simp add: dbl_val_def)

lemma to_double_near:
  "near 1 (dbl_val (to_double m e)) (of_nat m * 2 powi e)"
proof -
  obtain q e' where qe: "to_double m e = (q, e')" by (cases "to_double m e")
  from to_double_error_nat[OF this] obtain s where
    e': "e' = e + int s"
    and up: "2 ^ 53 * (q * 2 ^ s) \<le> (2 ^ 53 + 1) * m"
    and lo: "(2 ^ 53 - 1) * m \<le> 2 ^ 53 * (q * 2 ^ s)"
    by blast
  have val: "dbl_val (q, e') = of_nat (q * 2 ^ s) * 2 powi e"
    by (simp add: dbl_val_def e' power_int_add mult.commute)
  have pw: "(0::rat) < 2 powi e" by simp
  from up have "(of_nat (2 ^ 53 * (q * 2 ^ s)) :: rat) \<le> of_nat ((2 ^ 53 + 1) * m)"
    by (simp only: of_nat_le_iff)
  then have up': "(of_nat (q * 2 ^ s) :: rat) \<le> of_nat m * (1 + half_ulp)"
    by (simp add: half_ulp_def field_simps)
  from lo have "(of_nat ((2 ^ 53 - 1) * m) :: rat) \<le> of_nat (2 ^ 53 * (q * 2 ^ s))"
    by (simp only: of_nat_le_iff)
  then have lo': "(of_nat m :: rat) * (1 - half_ulp) \<le> of_nat (q * 2 ^ s)"
    by (simp add: half_ulp_def field_simps of_nat_diff)
  from up' pw have "(of_nat (q * 2 ^ s) :: rat) * 2 powi e \<le> of_nat m * (1 + half_ulp) * 2 powi e"
    by (simp only: mult_le_cancel_right_pos)
  moreover from lo' pw have "(of_nat m :: rat) * (1 - half_ulp) * 2 powi e \<le> of_nat (q * 2 ^ s) * 2 powi e"
    by (simp only: mult_le_cancel_right_pos)
  ultimately show ?thesis
    unfolding qe val near_def by (simp add: mult.assoc mult.commute mult.left_commute)
qed

lemma near_mult:
  assumes "near j a A" "near k b B" "0 \<le> A" "0 \<le> B"
  shows "near (j + k) (a * b) (A * B)"
proof -
  from assms(1) have a: "A * (1 - half_ulp) ^ j \<le> a" "a \<le> A * (1 + half_ulp) ^ j"
    by (simp_all add: near_def)
  from assms(2) have b: "B * (1 - half_ulp) ^ k \<le> b" "b \<le> B * (1 + half_ulp) ^ k"
    by (simp_all add: near_def)
  have pa: "0 \<le> A * (1 - half_ulp) ^ j" "0 \<le> B * (1 - half_ulp) ^ k"
    using assms(3,4) half_ulp_bounds by simp_all
  then have a0: "0 \<le> a" and b0: "0 \<le> b" using a(1) b(1) by linarith+
  have "(A * (1 - half_ulp) ^ j) * (B * (1 - half_ulp) ^ k) \<le> a * b"
    using a(1) b(1) pa a0 by (intro mult_mono) simp_all
  moreover have "a * b \<le> (A * (1 + half_ulp) ^ j) * (B * (1 + half_ulp) ^ k)"
    using a(2) b(2) a0 b0 assms(3,4) half_ulp_bounds by (intro mult_mono) simp_all
  ultimately show ?thesis
    by (simp add: near_def power_add mult.assoc mult.commute mult.left_commute)
qed

lemma near_add:
  assumes "near k a A" "near k b B"
  shows "near k (a + b) (A + B)"
  using assms by (simp add: near_def distrib_right add_mono)

lemma near_round:
  assumes "near k (of_nat m * 2 powi e) X" "0 \<le> X"
  shows "near (Suc k) (dbl_val (to_double m e)) X"
proof -
  let ?x = "of_nat m * 2 powi e :: rat"
  from to_double_near[of m e] have r: "?x * (1 - half_ulp) \<le> dbl_val (to_double m e)"
    "dbl_val (to_double m e) \<le> ?x * (1 + half_ulp)" by (simp_all add: near_def)
  from assms(1) have x: "X * (1 - half_ulp) ^ k \<le> ?x" "?x \<le> X * (1 + half_ulp) ^ k"
    by (simp_all add: near_def)
  have "X * (1 - half_ulp) ^ k * (1 - half_ulp) \<le> ?x * (1 - half_ulp)"
    using x(1) half_ulp_bounds by (intro mult_right_mono) simp_all
  with r(1) have lo: "X * (1 - half_ulp) ^ Suc k \<le> dbl_val (to_double m e)"
    by (simp add: mult.assoc mult.commute mult.left_commute)
  have "?x * (1 + half_ulp) \<le> X * (1 + half_ulp) ^ k * (1 + half_ulp)"
    using x(2) half_ulp_bounds by (intro mult_right_mono) simp_all
  with r(2) have hi: "dbl_val (to_double m e) \<le> X * (1 + half_ulp) ^ Suc k"
    by (simp add: mult.assoc mult.commute mult.left_commute)
  from lo hi show ?thesis by (simp add: near_def)
qed

lemma near_exact: "near 0 x x"
  by (simp add: near_def)

lemma float_of_nat_near: "near 1 (dbl_val (float_of_nat n)) (of_nat n)"
  using near_round[of 0 n 0 "of_nat n"] by (simp add: float_of_nat_def near_exact)

lemma lit_0_6_near: "near 1 (dbl_val lit_0_6) (6 / 10)"
  by (simp add: near_def lit_0_6_def dbl_val_def half_ulp_def power_int_minus field_simps)

lemma lit_0_4_near: "near 1 (dbl_val lit_0_4) (4 / 10)"
  by (simp add: near_def lit_0_4_def dbl_val_def half_ulp_def power_int_minus field_simps)

text \<open>
  The two literals are the doubles nearest to 6/10 and 4/10: written with a mantissa of
  53 bits, each is within half a unit of the scaled exact value.
\<close>

lemma literals_nearest:
  "dbl_val lit_0_6 = 5404319552844595 / 2 ^ 53
   \<and> (2::nat) ^ 52 \<le> 5404319552844595 \<and> (5404319552844595::nat) < 2 ^ 53
   \<and> \<bar>5404319552844595 - 6 / 10 * 2 ^ 53\<bar> \<le> (1 / 2 :: rat)
   \<and> dbl_val lit_0_4 = 7205759403792794 / 2 ^ 54
   \<and> (2::nat) ^ 52 \<le> 7205759403792794 \<and> (7205759403792794::nat) < 2 ^ 53
   \<and> \<bar>7205759403792794 - 4 / 10 * 2 ^ 54\<bar> \<le> (1 / 2 :: rat)"
  by (simp add: dbl_val_def lit_0_6_def lit_0_4_def power_int_minus)

lemma fmul_near:
  assumes "near j (dbl_val x) X" "near k (dbl_val y) Y" "0 \<le> X" "0 \<le> Y"
  shows "near (Suc (j + k)) (dbl_val (fmul x y)) (X * Y)"
proof -
  have "of_nat (fst x * fst y) * 2 powi (snd x + snd y) = dbl_val x * dbl_val y"
    by (simp add: dbl_val_def power_int_add)
  with near_mult[OF assms] have "near (j + k) (of_nat (fst x * fst y) * 2 powi (snd x + snd y)) (X * Y)"
    by simp
  from near_round[OF this] assms(3,4) show ?thesis by (simp add: fmul_def)
qed

lemma fadd_exact:
  "of_nat (fst x * 2 ^ nat (snd x - min (snd x) (snd y)) + fst y * 2 ^ nat (snd y - min (snd x) (snd y)))
     * 2 powi (min (snd x) (snd y)) = dbl_val x + dbl_val y"
proof -
  let ?e = "min (snd x) (snd y)"
  have p: "(2::rat) ^ nat (a - ?e) * 2 powi ?e = 2 powi a" if "?e \<le> a" for a
  proof -
    have "(2::rat) ^ nat (a - ?e) = 2 powi (a - ?e)" using that by (simp add: power_int_def)
    then show ?thesis by (simp add: power_int_add[symmetric])
  qed
  have "?e \<le> snd x" "?e \<le> snd y" by simp_all
  from p[OF this(1)] p[OF this(2)] show ?thesis
    by (simp add: dbl_val_def distrib_right mult.assoc)
qed

lemma fadd_near:
  assumes "near k (dbl_val x) X" "near k (dbl_val y) Y" "0 \<le> X" "0 \<le> Y"
  shows "near (Suc k) (dbl_val (fadd x y)) (X + Y)"
proof -
  from near_add[OF assms(1,2)] have "near k (dbl_val x + dbl_val y) (X + Y)" .
  then have "near k (of_nat (fst x * 2 ^ nat (snd x - min (snd x) (snd y))
                 + fst y * 2 ^ nat (snd y - min (snd x) (snd y)))
               * 2 powi (min (snd x) (snd y))) (X + Y)"
    by (simp only: fadd_exact)
  from near_round[OF this] assms(3,4) show ?thesis by (simp add: fadd_def Let_def)
qed

lemma score_near:
  "near 4 (dbl_val (fadd (fmul (float_of_nat nd) lit_0_6) (fmul (float_of_nat ni) lit_0_4)))
     (6 / 10 * of_nat nd + 4 / 10 * of_nat ni)"
proof -
  have a: "near 3 (dbl_val (fmul (float_of_nat nd) lit_0_6)) (of_nat nd * (6 / 10))"
    using fmul_near[OF float_of_nat_near[of nd] lit_0_6_near] by (simp add: numeral_3_eq_3)
  have b: "near 3 (dbl_val (fmul (float_of_nat ni) lit_0_4)) (of_nat ni * (4 / 10))"
    using fmul_near[OF float_of_nat_near[of ni] lit_0_4_near] by (simp add: numeral_3_eq_3)
  from fadd_near[OF a b] show ?thesis
    by (simp add: mult.commute eval_nat_numeral)
qed

lemma near_4_error:
  assumes "near 4 x X" "0 \<le> X"
  shows "\<bar>x - X\<bar> \<le> X / 2 ^ 50"
proof -
  have up: "(1 + half_ulp) ^ 4 \<le> 1 + 1 / 2 ^ 50"
    by (simp add: half_ulp_def power4_eq_xxxx field_simps)
  have lo: "1 - 1 / 2 ^ 50 \<le> (1 - half_ulp) ^ 4"
    by (simp add: half_ulp_def power4_eq_xxxx field_simps)
  from assms(1) have "X * (1 - half_ulp) ^ 4 \<le> x" "x \<le> X * (1 + half_ulp) ^ 4"
    by (simp_all add: near_def)
  moreover have "X * (1 - 1 / 2 ^ 50) \<le> X * (1 - half_ulp) ^ 4"
    using lo assms(2) by (rule mult_left_mono)
  moreover have "X * (1 + half_ulp) ^ 4 \<le> X * (1 + 1 / 2 ^ 50)"
    using up assms(2) by (rule mult_left_mono)
  ultimately have "X * (1 - 1 / 2 ^ 50) \<le> x" "x \<le> X * (1 + 1 / 2 ^ 50)" by linarith+
  then have "X - X / 2 ^ 50 \<le> x" "x \<le> X + X / 2 ^ 50" by (simp_all add: algebra_simps)
  then show ?thesis by linarith
qed

text \<open>
  Claim C3 says that the score equals 0.6 times the number of directions plus 0.4 times
  the number of ingredients exactly. The code computes it in floating point. For six
  directions and one ingredient the exact value is 4, the computed score is
  \<open>4 - 2^-51\<close> (Python prints 3.9999999999999996), and the flag is \<^verbatim>\<open>easy\<close>, not
  \<^verbatim>\<open>medium\<close>.
\<close>

theorem complexity_score_counterexample:
  "get_complexity_score (JArr [JStr (ascii ''egg'')])
     (JArr [JStr (ascii ''a''), JStr (ascii ''b''), JStr (ascii ''c''), JStr (ascii ''d''),
            JStr (ascii ''e''), JStr (ascii ''f'')])
     = Inr (9007199254740991, - 51)
   \<and> dbl_val (9007199254740991, - 51) = 4 - 1 / 2 ^ 51
   \<and> dbl_val (9007199254740991, - 51) \<noteq> 6 / 10 * of_nat 6 + 4 / 10 * of_nat 1
   \<and> get_difficulty_flag (9007199254740991, - 51) = ''easy''"
  by (simp add: score_6_1 get_difficulty_flag_def dbl_val_def power_int_minus)

text \<open>
  Claim C3 as amended. For every record whose ingredients and directions are lists, the
  score is the double that \<^verbatim>\<open>(len(directions) * 0.6) + (len(ingredients) * 0.4)\<close>
  evaluates to, each literal and each operation rounded to nearest; it differs from
  0.6 times the number of directions plus 0.4 times the number of ingredients by at most
  that value times \<open>2^-50\<close>. The flag is a function of the computed score: \<^verbatim>\<open>easy\<close> below
  4, \<^verbatim>\<open>medium\<close> from 4 to below 8, \<^verbatim>\<open>hard\<close> from 8 on; a score of exactly 4 gives
  \<^verbatim>\<open>medium\<close> and of exactly 8 \<^verbatim>\<open>hard\<close>.
\<close>

theorem complexity_score_rounded:
  "(\<exists>s. get_complexity_score (JArr ingredients) (JArr directions) = Inr s
        \<and> \<bar>dbl_val s - (6 / 10 * of_nat (length directions) + 4 / 10 * of_nat (length ingredients))\<bar>
            \<le> (6 / 10 * of_nat (length directions) + 4 / 10 * of_nat (length ingredients)) / 2 ^ 50)
   \<and> get_difficulty_flag x =
       (if dbl_val x < 4 then ''easy'' else if dbl_val x < 8 then ''medium'' else ''hard'')
   \<and> (dbl_val x = 4 \<longrightarrow> get_difficulty_flag x = ''medium'')
   \<and> (dbl_val x = 8 \<longrightarrow> get_difficulty_flag x = ''hard'')"
proof -
  let ?X = "6 / 10 * of_nat (length directions) + 4 / 10 * of_nat (length ingredients) :: rat"
  let ?s = "fadd (fmul (float_of_nat (length directions)) lit_0_6)
                 (fmul (float_of_nat (length ingredients)) lit_0_4)"
  have "get_complexity_score (JArr ingredients) (JArr directions) = Inr ?s"
    by (simp add: get_complexity_score_def)
  moreover have "0 \<le> ?X" by simp
  from near_4_error[OF score_near[of "length directions" "length ingredients"] this]
  have "\<bar>dbl_val ?s - ?X\<bar> \<le> ?X / 2 ^ 50" .
  ultimately have first: "\<exists>s. get_complexity_score (JArr ingredients) (JArr directions) = Inr s
        \<and> \<bar>dbl_val s - ?X\<bar> \<le> ?X / 2 ^ 50" by blast
  show ?thesis using first by (simp add: get_difficulty_flag_def)
qed

theorem complexity_score_rounded_witness:
  "get_difficulty_flag (4503599627370496, - 50) = ''medium''
   \<and> get_difficulty_flag (4503599627370496, - 49) = ''hard''
   \<and> (\<exists>s. get_complexity_score (JArr [JStr (ascii ''flour''), JStr (ascii ''milk'')])
              (JArr [JStr (ascii ''Mix''), JStr (ascii ''Fry for 2 minutes'')]) = Inr s
          \<and> \<bar>dbl_val s - 2\<bar> \<le> 2 / 2 ^ 50)"
proof -
  have v: "dbl_val (4503599627370496, - 50) = 4" "dbl_val (4503599627370496, - 49) = 8"
    by (simp_all add: dbl_val_def power_int_minus)
  from complexity_score_rounded[of "[JStr (ascii ''flour''), JStr (ascii ''milk'')]"
        "[JStr (ascii ''Mix''), JStr (ascii ''Fry for 2 minutes'')]" "(4503599627370496, - 50)"]
    complexity_score_rounded[of "[]" "[]" "(4503599627370496, - 49)"] v
  show ?thesis by simp
qed

section \<open>Transformation Coordinator\<close>

lemma series_set_keys: "fst ` set (series_set row k v) = insert k (fst ` set row)"
  by (induction row k v rule: series_set.induct) auto

lemma transform_row_keys:
  assumes "transform_row u fresh_id row = Inr row'"
  shows "fst ` set row' = fst ` set row \<union> added_columns"
proof -
  from assms obtain score secs where
    "row' = series_set (series_set (series_set (series_set row
               ''complexity_score'' (JFloat score))
               ''difficulty_flag'' (JStr (ascii (get_difficulty_flag score))))
               ''time_estimate'' (JNum secs))
               ''recipe_id'' (JStr (ascii fresh_id))"
    by (auto simp: transform_row_def Let_def split: sum.splits)
  then have "fst ` set row' =
      insert ''recipe_id'' (insert ''time_estimate'' (insert ''difficulty_flag''
        (insert ''complexity_score'' (fst ` set row))))"
    by (simp only: series_set_keys)
  then show ?thesis by (auto simp: added_columns_def)
qed

lemma row_series_keys: "fst ` set (row_series df vals) \<subseteq> set (df_columns df)"
  by (auto simp: row_series_def dest: set_zip_leftD)

lemma apply_rows_keys:
  assumes "apply_rows a df rows w = (Inr out, w1)" "r \<in> set out"
  shows "fst ` set r \<subseteq> set (df_columns df) \<union> added_columns"
  using assms
proof (induction rows arbitrary: w out)
  case Nil
  then show ?case by simp
next
  case (Cons vals rest)
  from Cons.prems(1) obtain row out' where
    row: "transform_row (python a) (new_uuid a (uuids_drawn w)) (row_series df vals) = Inr row"
    and rest: "apply_rows a df rest (w\<lparr>uuids_drawn := Suc (uuids_drawn w)\<rparr>) = (Inr out', w1)"
    and out: "out = row # out'"
    by (auto split: sum.splits prod.splits)
  show ?case
  proof (cases "r = row")
    case True
    with transform_row_keys[OF row] row_series_keys[of df vals] show ?thesis by auto
  next
    case False
    with Cons.prems(2) out have "r \<in> set out'" by simp
    from Cons.IH[OF rest this] show ?thesis .
  qed
qed

lemma df_apply_columns:
  assumes "df_apply a df w = (Inr df1, w1)"
  shows "set (df_columns df1) \<subseteq> set (df_columns df) \<union> added_columns"
proof (cases "df_rows df = []")
  case True
  with assms show ?thesis by (auto simp: df_apply_def)
next
  case False
  with assms obtain out where
    out: "apply_rows a df (df_rows df) w = (Inr out, w1)"
    and df1: "df_columns df1 = (case out of [] \<Rightarrow> df_columns df | r # rs \<Rightarrow> map fst r)"
    by (auto simp: df_apply_def split: sum.splits prod.splits)
  show ?thesis
  proof (cases out)
    case Nil
    with df1 show ?thesis by simp
  next
    case (Cons r rs)
    then have "r \<in> set out" by simp
    from apply_rows_keys[OF out this] df1 Cons show ?thesis by auto
  qed
qed

lemma select_needs_tags:
  "''tags'' \<notin> set (df_columns df) \<Longrightarrow> select_columns df needed_columns = Inl KeyError"
  by (simp add: select_columns_def needed_columns_def)

lemma transform_record_needs_tags:
  assumes "read_parquet_result a bucket key = Inr df" "''tags'' \<notin> set (df_columns df)"
  shows "\<exists>e. fst (transform_record environ a (bucket, key) w) = Inl e"
proof -
  let ?w2 = "w\<lparr>tlog := tlog w @ [LogProcessingFile bucket key, LogTempFile bucket key]\<rparr>"
  show ?thesis
  proof (cases "get_object_raises a bucket key")
    case True
    then show ?thesis by (simp add: transform_record_def Let_def)
  next
    case False
    show ?thesis
    proof (cases "df_apply a df ?w2")
      case (Pair r w3)
      show ?thesis
      proof (cases r)
        case (Inl e)
        with Pair False assms(1) show ?thesis by (simp add: transform_record_def Let_def)
      next
        case (Inr df1)
        with Pair have "set (df_columns df1) \<subseteq> set (df_columns df) \<union> added_columns"
          using df_apply_columns by blast
        with assms(2) have "''tags'' \<notin> set (df_columns df1)"
          by (auto simp: added_columns_def)
        from select_needs_tags[OF this] Inr Pair False assms(1) show ?thesis
          by (simp add: transform_record_def Let_def)
      qed
    qed
  qed
qed

lemma DataFrame_columns: "set (df_columns (DataFrame recipes)) = (\<Union>r \<in> set recipes. fst ` set r)"
  by (auto simp: DataFrame_def Let_def)

lemma transform_records_member_fails:
  assumes "record \<in> set event"
    and "\<And>w. \<exists>e. fst (transform_record environ a record w) = Inl e"
  shows "\<exists>e. fst (transform_records environ a event w) = Inl e"
  using assms(1)
proof (induction event arbitrary: w)
  case Nil
  then show ?case by simp
next
  case (Cons r rest)
  show ?case
  proof (cases "transform_record environ a r w")
    case (Pair res w1)
    show ?thesis
    proof (cases res)
      case (Inl e)
      with Pair show ?thesis by simp
    next
      case (Inr u)
      have "r \<noteq> record"
      proof
        assume "r = record"
        with assms(2)[of w] Pair Inr show False by simp
      qed
      with Cons.prems have "record \<in> set rest" by simp
      from Cons.IH[OF this, of w1] Pair Inr show ?thesis by simp
    qed
  qed
qed

lemma handler_member_fails:
  assumes "record \<in> set event"
    and "\<And>w. \<exists>e. fst (transform_record environ a record w) = Inl e"
  shows "\<exists>e. fst (transformation_lambda_handler environ a event w) = Inl e"
proof -
  from transform_records_member_fails[OF assms, of w]
  obtain e where "fst (transform_records environ a event w) = Inl e" by blast
  then show ?thesis
    by (cases "transform_records environ a event w")
       (simp add: transformation_lambda_handler_def)
qed

lemma pancake_score:
  "get_complexity_score (JArr [JStr (ascii ''flour''), JStr (ascii ''milk'')])
     (JArr [JStr (ascii ''Mix''), JStr (ascii ''Fry for 2 minutes'')]) = Inr (4503599627370496, - 51)"
proof -
  have a: "float_of_nat 2 = (2, 0)"
    by (simp add: float_of_nat_def to_double_exact)
  have b: "fmul (2, 0) lit_0_6 = (5404319552844595, - 52)"
    unfolding fmul_def lit_0_6_def
    by (simp add: to_double_eval[of _ 54] round_half_even_def)
  have c: "fmul (2, 0) lit_0_4 = (7205759403792794, - 53)"
    unfolding fmul_def lit_0_4_def by (simp add: to_double_exact)
  have d: "fadd (5404319552844595, - 52) (7205759403792794, - 53) = (4503599627370496, - 51)"
    unfolding fadd_def
    by (simp add: to_double_eval[of _ 55] round_half_even_def)
  have l: "py_len (JArr [JStr (ascii ''Mix''), JStr (ascii ''Fry for 2 minutes'')]) = Inr 2"
    "py_len (JArr [JStr (ascii ''flour''), JStr (ascii ''milk'')]) = Inr 2"
    by simp_all
  show ?thesis by (simp only: get_complexity_score_def l sum.case a b c d)
qed

lemma pancake_flag: "get_difficulty_flag (4503599627370496, - 51) = ''easy''"
  by (simp add: get_difficulty_flag_def dbl_val_def power_int_minus)

lemma pancake_time:
  "get_time_estimate u (JArr [JStr (ascii ''Mix''), JStr (ascii ''Fry for 2 minutes'')]) = Inr 420"
proof -
  have a: "findall u (ascii ''Mix'') = []" by (simp add: eval_findall)
  have b: "findall u (ascii ''Fry for 2 minutes'') = [(ascii ''2'', ascii ''minutes'')]"
    by (simp add: eval_findall)
  have c: "map_of TIME_UNITS (ascii ''minutes'') = Some 60"
    by (simp add: unit_seconds_table unit_seconds_def ascii_def)
  have d: "py_int u (ascii ''2'') = Inr 2"
    by (simp add: py_int_def too_many_digits_def number_value_def digit_value_def ascii_def)
  show ?thesis
    by (simp add: get_time_estimate_def a b c d)
qed

lemma char_of_ascii: "map char_of (ascii s) = s"
  by (induction s) (simp_all add: ascii_def)

lemma test_key_filename:
  "last (py_split CHR ''/'' test_key) = ''7c9e82bd-9ed4-44d0-a9a0-8215b23eb3ad.parquet''"
  by (simp add: test_key_def)

lemma tagged_frame:
  "DataFrame [tagged_pancake_items] =
     \<lparr>df_columns = [''title'', ''ingredients'', ''directions'', ''tags''],
      df_rows = [[JStr (ascii ''Pancakes''), JArr [JStr (ascii ''flour''), JStr (ascii ''milk'')],
                  JArr [JStr (ascii ''Mix''), JStr (ascii ''Fry for 2 minutes'')], JArr [JStr (ascii ''breakfast'')]]]\<rparr>"
  by (simp add: DataFrame_def tagged_pancake_items_def pancake_items_def)

lemma tagged_transformed:
  "transform_row u fresh_id
     [(''title'', JStr (ascii ''Pancakes'')),
      (''ingredients'', JArr [JStr (ascii ''flour''), JStr (ascii ''milk'')]),
      (''directions'', JArr [JStr (ascii ''Mix''), JStr (ascii ''Fry for 2 minutes'')]),
      (''tags'', tags)]
     = Inr [(''title'', JStr (ascii ''Pancakes'')),
            (''ingredients'', JArr [JStr (ascii ''flour''), JStr (ascii ''milk'')]),
            (''directions'', JArr [JStr (ascii ''Mix''), JStr (ascii ''Fry for 2 minutes'')]),
            (''tags'', tags),
            (''complexity_score'', JFloat (4503599627370496, - 51)),
            (''difficulty_flag'', JStr (ascii ''easy'')),
            (''time_estimate'', JNum 420),
            (''recipe_id'', JStr (ascii fresh_id))]"
  by (simp add: transform_row_def series_get_def pancake_score pancake_flag pancake_time)

lemma mixed_frame:
  "DataFrame [tagged_pancake_items, pancake_items] =
     \<lparr>df_columns = [''title'', ''ingredients'', ''directions'', ''tags''],
      df_rows = [[JStr (ascii ''Pancakes''), JArr [JStr (ascii ''flour''), JStr (ascii ''milk'')],
                  JArr [JStr (ascii ''Mix''), JStr (ascii ''Fry for 2 minutes'')],
                  JArr [JStr (ascii ''breakfast'')]],
                 [JStr (ascii ''Pancakes''), JArr [JStr (ascii ''flour''), JStr (ascii ''milk'')],
                  JArr [JStr (ascii ''Mix''), JStr (ascii ''Fry for 2 minutes'')], JNull]]\<rparr>"
  by (simp add: DataFrame_def tagged_pancake_items_def pancake_items_def)

lemma plain_frame:
  "DataFrame [pancake_items] =
     \<lparr>df_columns = [''title'', ''ingredients'', ''directions''],
      df_rows = [[JStr (ascii ''Pancakes''), JArr [JStr (ascii ''flour''), JStr (ascii ''milk'')],
                  JArr [JStr (ascii ''Mix''), JStr (ascii ''Fry for 2 minutes'')]]]\<rparr>"
  by (simp add: DataFrame_def pancake_items_def)

lemma plain_transformed:
  "transform_row u fresh_id
     [(''title'', JStr (ascii ''Pancakes'')),
      (''ingredients'', JArr [JStr (ascii ''flour''), JStr (ascii ''milk'')]),
      (''directions'', JArr [JStr (ascii ''Mix''), JStr (ascii ''Fry for 2 minutes'')])]
     = Inr [(''title'', JStr (ascii ''Pancakes'')),
            (''ingredients'', JArr [JStr (ascii ''flour''), JStr (ascii ''milk'')]),
            (''directions'', JArr [JStr (ascii ''Mix''), JStr (ascii ''Fry for 2 minutes'')]),
            (''complexity_score'', JFloat (4503599627370496, - 51)),
            (''difficulty_flag'', JStr (ascii ''easy'')),
            (''time_estimate'', JNum 420),
            (''recipe_id'', JStr (ascii fresh_id))]"
  by (simp add: transform_row_def series_get_def pancake_score pancake_flag pancake_time)

text \<open>
  Claim C9 says that every input record must carry \<^verbatim>\<open>tags\<close>. An artifact of two records,
  one with \<^verbatim>\<open>tags\<close> and one without, is processed: the frame has a \<^verbatim>\<open>tags\<close> column,
  with a missing cell for the second record, the selection succeeds, the handler returns
  200 and the object written has both rows.
\<close>

theorem untagged_record_processed:
  "fst (transformation_lambda_handler Map.empty mixed_artifact
          [(''temp-recipes-bucket'', test_key)] empty_tworld) = Inr 200
   \<and> read_parquet_result mixed_artifact ''temp-recipes-bucket'' test_key
       = Inr (DataFrame [tagged_pancake_items, pancake_items])
   \<and> ''tags'' \<notin> dict_keys pancake_items
   \<and> validate_raw_data (JObj pancake_items) = Inr True
   \<and> map (\<lambda>(bucket, key, df). (bucket, df_columns df, column df ''title'', column df ''tags''))
        (processed_objects (snd (transformation_lambda_handler Map.empty mixed_artifact
           [(''temp-recipes-bucket'', test_key)] empty_tworld)))
       = [(''processed-recipes-bucket'', needed_columns,
           [JStr (ascii ''Pancakes''), JStr (ascii ''Pancakes'')],
           [JArr [JStr (ascii ''breakfast'')], JNull])]"
proof -
  have "''tags'' \<notin> dict_keys pancake_items"
    by (simp add: dict_keys_def pancake_items_def)
  moreover have "validate_raw_data (JObj pancake_items) = Inr True"
    by (simp add: validate_raw_data_def required_fields_def pancake_items_def)
  ultimately show ?thesis
    by (simp add: transformation_lambda_handler_def transform_record_def mixed_artifact_def
        empty_tworld_def mixed_frame df_apply_def row_series_def tagged_transformed
        select_columns_def needed_columns_def cell_def column_def
        PROCESSED_BUCKET_def environ_get_str_def Let_def)
qed

text \<open>
  Claim C9, amended. The column selection asks for \<^verbatim>\<open>tags\<close>, and the frame of an
  artifact has a \<^verbatim>\<open>tags\<close> column exactly when at least one of its records has a
  \<^verbatim>\<open>tags\<close> key. When the frame read for a notification of the event has no \<^verbatim>\<open>tags\<close>
  column, and so when the artifact was built from records none of which has a \<^verbatim>\<open>tags\<close>
  key, the handler raises: at the selection with KeyError, if not earlier. The Validator
  accepts such records: a record with the three required keys and no \<^verbatim>\<open>tags\<close> is valid.
\<close>

theorem tags_column_required:
  "((bucket, key) \<in> set event \<and> read_parquet_result a bucket key = Inr df
      \<and> ''tags'' \<notin> set (df_columns df) \<longrightarrow>
      (\<exists>e. fst (transformation_lambda_handler environ a event w) = Inl e))
   \<and> ((bucket, key) \<in> set event \<and> (\<forall>r \<in> set recipes. ''tags'' \<notin> dict_keys r)
        \<and> read_parquet_result a bucket key = Inr (DataFrame recipes) \<longrightarrow>
      (\<exists>e. fst (transformation_lambda_handler environ a event w) = Inl e))
   \<and> (''tags'' \<in> set (df_columns (DataFrame recipes)) \<longleftrightarrow> (\<exists>r \<in> set recipes. ''tags'' \<in> dict_keys r))
   \<and> (''tags'' \<notin> dict_keys r \<and> {''title'', ''ingredients'', ''directions''} \<subseteq> dict_keys r \<longrightarrow>
        validate_raw_data (JObj r) = Inr True)"
proof (intro conjI impI)
  assume h: "(bucket, key) \<in> set event \<and> read_parquet_result a bucket key = Inr df
      \<and> ''tags'' \<notin> set (df_columns df)"
  then have "\<exists>e. fst (transform_record environ a (bucket, key) w') = Inl e" for w'
    using transform_record_needs_tags by blast
  with h show "\<exists>e. fst (transformation_lambda_handler environ a event w) = Inl e"
    using handler_member_fails by blast
next
  assume h: "(bucket, key) \<in> set event \<and> (\<forall>r \<in> set recipes. ''tags'' \<notin> dict_keys r)
        \<and> read_parquet_result a bucket key = Inr (DataFrame recipes)"
  then have "''tags'' \<notin> set (df_columns (DataFrame recipes))"
    by (auto simp: DataFrame_columns dict_keys_def)
  with h have "\<exists>e. fst (transform_record environ a (bucket, key) w') = Inl e" for w'
    using transform_record_needs_tags by blast
  with h show "\<exists>e. fst (transformation_lambda_handler environ a event w) = Inl e"
    using handler_member_fails by blast
next
  show "''tags'' \<in> set (df_columns (DataFrame recipes)) \<longleftrightarrow> (\<exists>r \<in> set recipes. ''tags'' \<in> dict_keys r)"
    by (simp add: DataFrame_columns dict_keys_def)
next
  assume "''tags'' \<notin> dict_keys r \<and> {''title'', ''ingredients'', ''directions''} \<subseteq> dict_keys r"
  then show "validate_raw_data (JObj r) = Inr True"
    by (simp add: validate_raw_data_def required_fields_def dict_keys_def)
qed

theorem tags_column_required_witness:
  "validate_raw_data (JObj pancake_items) = Inr True
   \<and> fst (transformation_lambda_handler Map.empty (one_artifact pancake_items)
            [(''temp-recipes-bucket'', test_key)] empty_tworld) = Inl KeyError"
proof -
  have k: "dict_keys pancake_items = {''title'', ''ingredients'', ''directions''}"
    by (auto simp: dict_keys_def pancake_items_def)
  have r: "read_parquet_result (one_artifact pancake_items) ''temp-recipes-bucket'' test_key
             = Inr (DataFrame [pancake_items])"
    by (simp add: one_artifact_def)
  have ev: "fst (transformation_lambda_handler Map.empty (one_artifact pancake_items)
            [(''temp-recipes-bucket'', test_key)] empty_tworld) = Inl KeyError"
    by (simp add: transformation_lambda_handler_def transform_record_def one_artifact_def
        empty_tworld_def plain_frame df_apply_def row_series_def plain_transformed
        select_columns_def needed_columns_def Let_def)
  from tags_column_required[where a = "one_artifact pancake_items" and bucket = "''temp-recipes-bucket''"
      and key = test_key and df = "DataFrame [pancake_items]" and environ = Map.empty
      and event = "[(''temp-recipes-bucket'', test_key)]" and w = empty_tworld
      and recipes = "[pancake_items]" and r = pancake_items]
    k r ev
  show ?thesis by simp
qed

text \<open>
  Claim C7 says that the output key is one difficulty flag, a slash and the file name of
  the source key. Line 114 formats \<^verbatim>\<open>df['difficulty_flag']\<close>, the whole column, so the
  key starts with the text pandas prints for the column. Evaluated on the source's own
  test event, for an artifact of one recipe that is classified \<^verbatim>\<open>easy\<close>: the object is
  written under the column's text followed by the slash and the file name, not under
  \<^verbatim>\<open>easy/7c9e82bd-9ed4-44d0-a9a0-8215b23eb3ad.parquet\<close>.
\<close>

theorem output_key_is_column_text:
  "map (\<lambda>(bucket, key, df). (bucket, key))
       (processed_objects (snd (transformation_lambda_handler Map.empty
          (one_artifact tagged_pancake_items) [(''temp-recipes-bucket'', test_key)] empty_tworld)))
     = [(''processed-recipes-bucket'',
         ''0    easy'' @ [CHR 0x0A]
           @ ''Name: difficulty_flag, dtype: object/7c9e82bd-9ed4-44d0-a9a0-8215b23eb3ad.parquet'')]"
  by (simp add: transformation_lambda_handler_def transform_record_def one_artifact_def
        empty_tworld_def tagged_frame df_apply_def row_series_def tagged_transformed
        select_columns_def needed_columns_def cell_def output_key_def column_def
        pandas_str_def char_of_ascii test_key_filename PROCESSED_BUCKET_def
        environ_get_str_def Let_def)

end
